theory Spec2Isabelle
  imports Main "HOL-Library.AList" "HOL-Library.Sublist"
begin

section \<open>Python strings\<close>

text \<open>
  A Python \<^verbatim>\<open>str\<close> is a \<^typ>\<open>string\<close>: the bytes of its UTF-8 encoding, which is
  also what the integration writes to its files.  An ASCII character is one byte; a
  character outside ASCII is a run of two to four bytes above 127 (the en dash of the
  templates is \<open>E2 80 93\<close>).  No encoding is the beginning of another, and the bytes of
  a character outside ASCII never occur in an ASCII character, so a method that looks
  for given characters at the ends of a text, or for given ASCII characters anywhere,
  is the same on the bytes.
\<close>

text \<open>The characters that \<^verbatim>\<open>str.isspace\<close> accepts and \<^verbatim>\<open>str.strip()\<close> removes:
  U+0009 to U+000D, U+001C to U+0020, U+0085, U+00A0, U+1680, U+2000 to U+200A, U+2028,
  U+2029, U+202F, U+205F and U+3000.\<close>

definition whitespace_chars :: "string list" where
  "whitespace_chars =
     [[CHR 0x09], [CHR 0x0A], [CHR 0x0B], [CHR 0x0C], [CHR 0x0D],
      [CHR 0x1C], [CHR 0x1D], [CHR 0x1E], [CHR 0x1F], [CHR 0x20],
      [CHR 0xC2, CHR 0x85], [CHR 0xC2, CHR 0xA0], [CHR 0xE1, CHR 0x9A, CHR 0x80],
      [CHR 0xE2, CHR 0x80, CHR 0x80], [CHR 0xE2, CHR 0x80, CHR 0x81],
      [CHR 0xE2, CHR 0x80, CHR 0x82], [CHR 0xE2, CHR 0x80, CHR 0x83],
      [CHR 0xE2, CHR 0x80, CHR 0x84], [CHR 0xE2, CHR 0x80, CHR 0x85],
      [CHR 0xE2, CHR 0x80, CHR 0x86], [CHR 0xE2, CHR 0x80, CHR 0x87],
      [CHR 0xE2, CHR 0x80, CHR 0x88], [CHR 0xE2, CHR 0x80, CHR 0x89],
      [CHR 0xE2, CHR 0x80, CHR 0x8A], [CHR 0xE2, CHR 0x80, CHR 0xA8],
      [CHR 0xE2, CHR 0x80, CHR 0xA9], [CHR 0xE2, CHR 0x80, CHR 0xAF],
      [CHR 0xE2, CHR 0x81, CHR 0x9F], [CHR 0xE3, CHR 0x80, CHR 0x80]]"

text \<open>\<open>strip_front ws s\<close> removes from the front of \<open>s\<close> every character of \<open>ws\<close>.
  \<^verbatim>\<open>str.strip()\<close> does so at both ends.\<close>

function strip_front :: "string list \<Rightarrow> string \<Rightarrow> string" where
  "strip_front ws s =
     (case find (\<lambda>w. w \<noteq> [] \<and> prefix w s) ws of
        None \<Rightarrow> s
      | Some w \<Rightarrow> strip_front ws (drop (length w) s))"
  by pat_completeness auto
termination
  by (relation "measure (\<lambda>(ws, s). length s)") (auto simp: find_Some_iff prefix_def)

declare strip_front.simps [simp del]

definition py_lstrip :: "string \<Rightarrow> string" where
  "py_lstrip s = strip_front whitespace_chars s"

definition py_rstrip :: "string \<Rightarrow> string" where
  "py_rstrip s = rev (strip_front (map rev whitespace_chars) (rev s))"

definition py_strip :: "string \<Rightarrow> string" where
  "py_strip s = py_rstrip (py_lstrip s)"

text \<open>Upper and lower case of a letter differ in the bit of weight 32.\<close>

definition set_bit5 :: "bool \<Rightarrow> char \<Rightarrow> char" where
  "set_bit5 b c = (case c of Char b0 b1 b2 b3 b4 b5 b6 b7 \<Rightarrow> Char b0 b1 b2 b3 b4 b b6 b7)"

definition is_ascii_upper :: "char \<Rightarrow> bool" where
  "is_ascii_upper c = (c \<in> set ''ABCDEFGHIJKLMNOPQRSTUVWXYZ'')"

definition is_ascii_lower :: "char \<Rightarrow> bool" where
  "is_ascii_lower c = (c \<in> set ''abcdefghijklmnopqrstuvwxyz'')"

definition py_lower_char :: "char \<Rightarrow> char" where
  "py_lower_char c = (if is_ascii_upper c then set_bit5 True c else c)"

text \<open>
  \<^verbatim>\<open>str.lower()\<close>.  Two characters outside ASCII have a lower case that holds an ASCII
  letter: U+0130, \<open>C4 B0\<close>, becomes \<^verbatim>\<open>i\<close> followed by U+0307, \<open>CC 87\<close>, and the Kelvin
  sign U+212A, \<open>E2 84 AA\<close>, becomes \<^verbatim>\<open>k\<close>.  The lower case of any other character
  outside ASCII lies outside ASCII; the model leaves such a character as it is.
\<close>

fun py_lower :: "string \<Rightarrow> string" where
  "py_lower (a # b # c # cs) =
     (if a = CHR 0xE2 \<and> b = CHR 0x84 \<and> c = CHR 0xAA then CHR ''k'' # py_lower cs
      else if a = CHR 0xC4 \<and> b = CHR 0xB0
      then CHR ''i'' # CHR 0xCC # CHR 0x87 # py_lower (c # cs)
      else py_lower_char a # py_lower (b # c # cs))"
| "py_lower [a, b] =
     (if a = CHR 0xC4 \<and> b = CHR 0xB0 then [CHR ''i'', CHR 0xCC, CHR 0x87]
      else [py_lower_char a, py_lower_char b])"
| "py_lower [a] = [py_lower_char a]"
| "py_lower [] = []"

definition py_upper_char :: "char \<Rightarrow> char" where
  "py_upper_char c = (if is_ascii_lower c then set_bit5 False c else c)"

text \<open>\<^verbatim>\<open>str.title()\<close>: a letter that follows a cased letter is lowered, any other
  letter is raised.  The model knows the ASCII letters as cased; a name with letters
  outside ASCII gets its title case in the code and keeps those letters here.\<close>

fun title_loop :: "bool \<Rightarrow> string \<Rightarrow> string" where
  "title_loop previous_is_cased [] = []"
| "title_loop previous_is_cased (c # cs) =
     (if previous_is_cased then py_lower_char c else py_upper_char c)
       # title_loop (is_ascii_upper c \<or> is_ascii_lower c) cs"

definition py_title :: "string \<Rightarrow> string" where
  "py_title s = title_loop False s"

text \<open>\<^verbatim>\<open>sep.join(parts)\<close> and \<^verbatim>\<open>s.replace(old, new)\<close> (all occurrences, found from
  the left, not overlapping).\<close>

fun py_join :: "string \<Rightarrow> string list \<Rightarrow> string" where
  "py_join sep [] = []"
| "py_join sep [x] = x"
| "py_join sep (x # xs) = x @ sep @ py_join sep xs"

function py_replace :: "string \<Rightarrow> string \<Rightarrow> string \<Rightarrow> string" where
  "py_replace old new [] = (if old = [] then new else [])"
| "py_replace old new (c # cs) =
     (if old = [] then new @ c # py_replace old new cs
      else if take (length old) (c # cs) = old
      then new @ py_replace old new (drop (length old) (c # cs))
      else c # py_replace old new cs)"
  by pat_completeness auto
termination
  by (relation "measure (\<lambda>(old, new, s). length s)") auto

text \<open>\<^verbatim>\<open>x or default\<close> for an optional string: \<^verbatim>\<open>None\<close> and the empty string are
  both false.\<close>

definition py_or :: "string option \<Rightarrow> string \<Rightarrow> string" where
  "py_or x dflt = (case x of None \<Rightarrow> dflt | Some s \<Rightarrow> (if s \<noteq> [] then s else dflt))"

text \<open>\<^verbatim>\<open>re.sub(r"[...]+", repl, s)\<close> for a character class \<open>p\<close>: every maximal run of
  characters of the class is replaced by \<open>repl\<close>.\<close>

function re_sub_runs :: "(char \<Rightarrow> bool) \<Rightarrow> string \<Rightarrow> string \<Rightarrow> string" where
  "re_sub_runs p r [] = []"
| "re_sub_runs p r (c # cs) =
     (if p c then r @ re_sub_runs p r (dropWhile p cs) else c # re_sub_runs p r cs)"
  by pat_completeness auto
termination
  by (relation "measure (\<lambda>(p, r, s). length s)") (auto simp: less_Suc_eq_le length_dropWhile_le)

section \<open>slugify\<close>

text \<open>
  \<^verbatim>\<open>
  def slugify(value: str) -> str:
      value = value.strip().lower()
      value = re.sub(r"[^a-z0-9_\- ]", "", value)
      value = re.sub(r"[\s\-]+", "_", value)
      return value or "automation"
  \<close>
  \<open>slug_keep\<close> is the class \<^verbatim>\<open>[a-z0-9_\- ]\<close> whose complement the first substitution
  deletes, \<open>slug_sep\<close> the class \<^verbatim>\<open>[\s\-]\<close> of the second.  The first substitution
  leaves ASCII characters only, so the second meets no whitespace outside ASCII and
  \<open>slug_sep\<close> is a class of bytes.
\<close>

definition ascii_space :: "char \<Rightarrow> bool" where
  "ascii_space c = ([c] \<in> set whitespace_chars)"

definition slug_keep :: "char \<Rightarrow> bool" where
  "slug_keep c = (c \<in> set ''abcdefghijklmnopqrstuvwxyz0123456789_- '')"

definition slug_sep :: "char \<Rightarrow> bool" where
  "slug_sep c = (ascii_space c \<or> c = CHR ''-'')"

definition slugify :: "string \<Rightarrow> string" where
  "slugify v =
     (let v1 = py_lower (py_strip v);
          v2 = filter slug_keep v1;
          v3 = re_sub_runs slug_sep ''_'' v2
      in if v3 = [] then ''automation'' else v3)"

text \<open>The characters a slug is made of.\<close>

definition slug_alphabet :: "string" where
  "slug_alphabet = ''abcdefghijklmnopqrstuvwxyz0123456789_''"

text \<open>
  What slugify does, said step by step: the text is trimmed of the whitespace around it
  and put in lower case; of the result only the lower-case letters, the digits, the
  underscore, the hyphen and the space are kept; there, every run of spaces and hyphens
  gives one underscore (\<open>underscore_runs\<close> drops a space or hyphen that another one
  follows and turns the last of a run into the underscore); nothing left gives
  \<^verbatim>\<open>automation\<close>.
\<close>

fun underscore_runs :: "string \<Rightarrow> string" where
  "underscore_runs [] = []"
| "underscore_runs [c] = (if c = CHR '' '' \<or> c = CHR ''-'' then ''_'' else [c])"
| "underscore_runs (c # d # cs) =
     (if c = CHR '' '' \<or> c = CHR ''-'' then
        (if d = CHR '' '' \<or> d = CHR ''-'' then underscore_runs (d # cs)
         else CHR ''_'' # underscore_runs (d # cs))
      else c # underscore_runs (d # cs))"

definition slugify_steps :: "string \<Rightarrow> string" where
  "slugify_steps x =
     (let kept = [c \<leftarrow> py_lower (py_strip x).
                    c \<in> set ''abcdefghijklmnopqrstuvwxyz0123456789_- '']
      in if kept = [] then ''automation'' else underscore_runs kept)"

text \<open>
  \<^verbatim>\<open>
  def humanize(value: str) -> str:
      cleaned = re.sub(r"[_\-]+", " ", value).strip()
      return cleaned.title() if cleaned else "Automation"
  \<close>
\<close>

definition humanize :: "string \<Rightarrow> string" where
  "humanize v =
     (let cleaned = py_strip (re_sub_runs (\<lambda>c. c = CHR ''_'' \<or> c = CHR ''-'') '' '' v)
      in if cleaned \<noteq> [] then py_title cleaned else ''Automation'')"


section \<open>The YAML serializer\<close>

text \<open>
  \<^verbatim>\<open>yaml.safe_dump\<close> belongs to the PyYAML library, which the integration calls with
  fixed options.  The values it is given are trees of mappings, sequences and scalars;
  the emitter below writes them as PyYAML does for these options (block style,
  two-space indentation, keys in insertion order, Unicode kept).  No value occurs twice
  in a tree by identity, so no anchors are written.
\<close>

datatype yaml = YNull | YBool bool | YInt int | YStr string
  | YSeq "yaml list" | YMap "(string \<times> yaml) list"

definition dict_set :: "(string \<times> 'v) list \<Rightarrow> string \<Rightarrow> 'v \<Rightarrow> (string \<times> 'v) list" where
  "dict_set d k v = AList.update k v d"

subsection \<open>Regular expressions of the implicit resolvers\<close>

datatype rexp = Eps | Cls string | Cat rexp rexp | Alt rexp rexp | Star rexp

fun nullable :: "rexp \<Rightarrow> bool" where
  "nullable Eps = True"
| "nullable (Cls cs) = False"
| "nullable (Cat r s) = (nullable r \<and> nullable s)"
| "nullable (Alt r s) = (nullable r \<or> nullable s)"
| "nullable (Star r) = True"

text \<open>\<open>deriv c r\<close> is \<open>None\<close> when no word of \<open>r\<close> starts with \<open>c\<close>.\<close>

fun alt_opt :: "rexp option \<Rightarrow> rexp option \<Rightarrow> rexp option" where
  "alt_opt None b = b"
| "alt_opt a None = a"
| "alt_opt (Some r) (Some s) = Some (Alt r s)"

fun deriv :: "char \<Rightarrow> rexp \<Rightarrow> rexp option" where
  "deriv c Eps = None"
| "deriv c (Cls cs) = (if c \<in> set cs then Some Eps else None)"
| "deriv c (Cat r s) =
     alt_opt (map_option (\<lambda>r'. Cat r' s) (deriv c r)) (if nullable r then deriv c s else None)"
| "deriv c (Alt r s) = alt_opt (deriv c r) (deriv c s)"
| "deriv c (Star r) = map_option (\<lambda>r'. Cat r' (Star r)) (deriv c r)"

fun re_fullmatch :: "rexp \<Rightarrow> string \<Rightarrow> bool" where
  "re_fullmatch r [] = nullable r"
| "re_fullmatch r (c # cs) = (case deriv c r of None \<Rightarrow> False | Some r' \<Rightarrow> re_fullmatch r' cs)"

definition re_opt :: "rexp \<Rightarrow> rexp" where "re_opt r = Alt r Eps"
definition re_plus :: "rexp \<Rightarrow> rexp" where "re_plus r = Cat r (Star r)"
fun re_cat :: "rexp list \<Rightarrow> rexp" where
  "re_cat [] = Eps" | "re_cat [r] = r" | "re_cat (r # rs) = Cat r (re_cat rs)"
fun re_alt :: "rexp list \<Rightarrow> rexp" where
  "re_alt [] = Cls []" | "re_alt [r] = r" | "re_alt (r # rs) = Alt r (re_alt rs)"
definition re_lit :: "string \<Rightarrow> rexp" where "re_lit s = re_cat (map (\<lambda>c. Cls [c]) s)"

definition digit :: rexp where "digit = Cls ''0123456789''"
definition digit_us :: rexp where "digit_us = Cls ''0123456789_''"
definition sign_opt :: rexp where "sign_opt = re_opt (Cls ''-+'')"
definition sexagesimal :: rexp where
  "sexagesimal = re_plus (re_cat [Cls '':'', re_opt (Cls ''012345''), digit])"
definition exponent_opt :: rexp where
  "exponent_opt = re_opt (re_cat [Cls ''eE'', Cls ''-+'', re_plus digit])"

definition float_re :: rexp where
  "float_re = re_alt [
     re_cat [sign_opt, digit, Star digit_us, Cls ''.'', Star digit_us, exponent_opt],
     re_cat [Cls ''.'', digit, Star digit_us, exponent_opt],
     re_cat [sign_opt, digit, Star digit_us, sexagesimal, Cls ''.'', Star digit_us],
     re_cat [sign_opt, Cls ''.'', re_alt [re_lit ''inf'', re_lit ''Inf'', re_lit ''INF'']],
     re_cat [Cls ''.'', re_alt [re_lit ''nan'', re_lit ''NaN'', re_lit ''NAN'']]]"

definition int_re :: rexp where
  "int_re = re_alt [
     re_cat [sign_opt, re_lit ''0b'', re_plus (Cls ''01_'')],
     re_cat [sign_opt, Cls ''0'', re_plus (Cls ''01234567_'')],
     re_cat [sign_opt, re_alt [Cls ''0'', re_cat [Cls ''123456789'', Star digit_us]]],
     re_cat [sign_opt, re_lit ''0x'', re_plus (Cls ''0123456789abcdefABCDEF_'')],
     re_cat [sign_opt, Cls ''123456789'', Star digit_us, sexagesimal]]"

definition timestamp_re :: rexp where
  "timestamp_re = re_alt [
     re_cat [digit, digit, digit, digit, Cls ''-'', digit, digit, Cls ''-'', digit, digit],
     re_cat [digit, digit, digit, digit, Cls ''-'', digit, re_opt digit, Cls ''-'', digit, re_opt digit,
       re_alt [Cls ''Tt'', re_plus (Cls [CHR '' '', CHR 0x09])], digit, re_opt digit,
       Cls '':'', digit, digit, Cls '':'', digit, digit,
       re_opt (Cat (Cls ''.'') (Star digit)),
       re_opt (re_cat [Star (Cls [CHR '' '', CHR 0x09]),
         re_alt [Cls ''Z'', re_cat [Cls ''-+'', digit, re_opt digit,
           re_opt (re_cat [Cls '':'', digit, digit])]]])]]"

text \<open>\<^verbatim>\<open>regexp.match(value)\<close> for a pattern \<^verbatim>\<open>^(?:...)$\<close>: the dollar also matches before a
  final newline.\<close>

definition re_match_dollar :: "(string \<Rightarrow> bool) \<Rightarrow> string \<Rightarrow> bool" where
  "re_match_dollar m s = (m s \<or> (s \<noteq> [] \<and> last s = CHR 0x0A \<and> m (butlast s)))"

datatype tag = TagStr | TagBool | TagInt | TagFloat | TagNull | TagTimestamp | TagMerge | TagValue

definition bool_words :: "string list" where
  "bool_words = [''yes'', ''Yes'', ''YES'', ''no'', ''No'', ''NO'', ''true'', ''True'', ''TRUE'',
     ''false'', ''False'', ''FALSE'', ''on'', ''On'', ''ON'', ''off'', ''Off'', ''OFF'']"

definition null_words :: "string list" where
  "null_words = [''~'', ''null'', ''Null'', ''NULL'', '''']"

text \<open>\<^verbatim>\<open>Resolver.resolve(ScalarNode, value, (True, False))\<close>: the implicit resolvers are tried
  in the order of their registration; each pattern only matches values that begin with
  one of the characters it is registered for.\<close>

definition resolve :: "string \<Rightarrow> tag" where
  "resolve v =
     (if re_match_dollar (\<lambda>s. s \<in> set bool_words) v then TagBool
      else if re_match_dollar (re_fullmatch float_re) v then TagFloat
      else if re_match_dollar (re_fullmatch int_re) v then TagInt
      else if re_match_dollar (\<lambda>s. s = ''<<'') v then TagMerge
      else if re_match_dollar (\<lambda>s. s \<in> set null_words) v \<and> v \<noteq> [CHR 0x0A] then TagNull
      else if re_match_dollar (re_fullmatch timestamp_re) v then TagTimestamp
      else if re_match_dollar (\<lambda>s. s = ''='') v then TagValue
      else TagStr)"

subsection \<open>The emitter\<close>

record emitter =
  column :: nat
  whitespace :: bool
  indention :: bool

type_synonym writer = "emitter \<Rightarrow> string \<times> emitter"

definition best_indent :: nat where "best_indent = 2"
definition best_width :: nat where "best_width = 80"

definition then_w :: "writer \<Rightarrow> writer \<Rightarrow> writer" where
  "then_w f g st = (case f st of (a, st1) \<Rightarrow> (case g st1 of (b, st2) \<Rightarrow> (a @ b, st2)))"

definition skip_w :: writer where
  "skip_w st = ([], st)"

definition write_data :: "string \<Rightarrow> writer" where
  "write_data data st = (data, st\<lparr>column := column st + length data\<rparr>)"

definition write_indicator :: "string \<Rightarrow> bool \<Rightarrow> bool \<Rightarrow> bool \<Rightarrow> writer" where
  "write_indicator indicator need_whitespace ws ind st =
     (let data = (if whitespace st \<or> \<not> need_whitespace then indicator else CHR '' '' # indicator)
      in (data, \<lparr>column = column st + length data, whitespace = ws,
                 indention = (indention st \<and> ind)\<rparr>))"

definition write_line_break :: writer where
  "write_line_break st = ([CHR 0x0A], \<lparr>column = 0, whitespace = True, indention = True\<rparr>)"

definition write_indent :: "nat \<Rightarrow> writer" where
  "write_indent indent =
     then_w (\<lambda>st. if \<not> indention st \<or> column st > indent
                     \<or> (column st = indent \<and> \<not> whitespace st)
                  then write_line_break st else skip_w st)
            (\<lambda>st. if column st < indent
                  then (replicate (indent - column st) CHR '' '',
                        st\<lparr>whitespace := True, column := indent\<rparr>)
                  else skip_w st)"

definition set_flags :: "bool \<Rightarrow> bool \<Rightarrow> writer" where
  "set_flags ws ind st = ([], st\<lparr>whitespace := ws, indention := ind\<rparr>)"

subsection \<open>Scalar analysis\<close>

text \<open>
  The emitter tells line breaks, blanks, printable and special characters apart.  Among
  the characters of the model (see the section on strings) the line feed is the only
  break, and the special characters are the ASCII control characters other than the
  line feed.
\<close>

definition is_break :: "char \<Rightarrow> bool" where
  "is_break c = (c = CHR 0x0A)"

definition is_space_or_break :: "char \<Rightarrow> bool" where
  "is_space_or_break c = (c \<in> set [CHR 0x00, CHR '' '', CHR 0x09, CHR 0x0D, CHR 0x0A])"

definition is_special :: "char \<Rightarrow> bool" where
  "is_special c =
     (let n = (of_char c :: nat) in
      \<not> (c = CHR 0x0A \<or> (32 \<le> n \<and> n \<le> 126) \<or> 128 \<le> n))"

record flags =
  block_indicators :: bool
  line_breaks :: bool
  special_characters :: bool
  leading_space :: bool
  leading_break :: bool
  trailing_space :: bool
  trailing_break :: bool
  break_space :: bool
  space_break :: bool

record ScalarAnalysis =
  empty :: bool
  multiline :: bool
  allow_block_plain :: bool
  allow_single_quoted :: bool

text \<open>One round of the loop of \<^verbatim>\<open>analyze_scalar\<close>: \<open>prev\<close> is the character before
  \<open>ch\<close> (none at index 0) and \<open>rest\<close> what follows it.\<close>

definition analyze_char :: "char option \<Rightarrow> char \<Rightarrow> string \<Rightarrow> flags \<Rightarrow> flags" where
  "analyze_char prev ch rest f =
     (let followed_by_whitespace = (case rest of [] \<Rightarrow> True | c # _ \<Rightarrow> is_space_or_break c);
          preceded_by_whitespace = (case prev of None \<Rightarrow> True | Some c \<Rightarrow> is_space_or_break c);
          previous_space = (prev = Some CHR '' '');
          previous_break = (case prev of None \<Rightarrow> False | Some c \<Rightarrow> is_break c);
          first = (prev = None);
          final = (rest = []);
          indicator =
            (if first then
               ch \<in> set ''#,[]{}&*!|>'' \<or> ch \<in> set [CHR 0x27, CHR 0x22, CHR ''%'', CHR ''@'', CHR 0x60]
               \<or> (ch \<in> set ''?:'' \<and> followed_by_whitespace)
               \<or> (ch = CHR ''-'' \<and> followed_by_whitespace)
             else
               (ch = CHR '':'' \<and> followed_by_whitespace)
               \<or> (ch = CHR ''#'' \<and> preceded_by_whitespace))
      in f\<lparr>block_indicators := block_indicators f \<or> indicator,
            line_breaks := line_breaks f \<or> is_break ch,
            special_characters := special_characters f \<or> is_special ch,
            leading_space := leading_space f \<or> (ch = CHR '' '' \<and> first),
            leading_break := leading_break f \<or> (is_break ch \<and> first),
            trailing_space := trailing_space f \<or> (ch = CHR '' '' \<and> final),
            trailing_break := trailing_break f \<or> (is_break ch \<and> final),
            break_space := break_space f \<or> (ch = CHR '' '' \<and> previous_break),
            space_break := space_break f \<or> (is_break ch \<and> previous_space)\<rparr>)"

fun analyze_loop :: "char option \<Rightarrow> string \<Rightarrow> flags \<Rightarrow> flags" where
  "analyze_loop prev [] f = f"
| "analyze_loop prev (ch # rest) f = analyze_loop (Some ch) rest (analyze_char prev ch rest f)"

definition starts_with :: "string \<Rightarrow> string \<Rightarrow> bool" where
  "starts_with s p = (take (length p) s = p)"

definition analyze_scalar :: "string \<Rightarrow> ScalarAnalysis" where
  "analyze_scalar scalar =
     (if scalar = [] then
        \<lparr>empty = True, multiline = False, allow_block_plain = True, allow_single_quoted = True\<rparr>
      else
        let document_indicator = (starts_with scalar ''---'' \<or> starts_with scalar ''...'');
            f = analyze_loop None scalar
                  \<lparr>block_indicators = document_indicator, line_breaks = False,
                   special_characters = False, leading_space = False, leading_break = False,
                   trailing_space = False, trailing_break = False, break_space = False,
                   space_break = False\<rparr>
        in \<lparr>empty = False, multiline = line_breaks f,
            allow_block_plain =
              (\<not> (leading_space f \<or> leading_break f \<or> trailing_space f \<or> trailing_break f)
               \<and> \<not> break_space f \<and> \<not> (space_break f \<or> special_characters f)
               \<and> \<not> line_breaks f \<and> \<not> block_indicators f),
            allow_single_quoted =
              (\<not> break_space f \<and> \<not> (space_break f \<or> special_characters f))\<rparr>)"

datatype style = Plain | SingleQuoted | DoubleQuoted

text \<open>\<^verbatim>\<open>choose_scalar_style\<close> outside flow collections, for a node without a style of
  its own; \<open>implicit0\<close> says that the resolver finds the node's tag from the plain value.\<close>

definition choose_scalar_style :: "bool \<Rightarrow> bool \<Rightarrow> string \<Rightarrow> style" where
  "choose_scalar_style simple_key implicit0 v =
     (let a = analyze_scalar v in
      if implicit0 \<and> \<not> (simple_key \<and> (empty a \<or> multiline a)) \<and> allow_block_plain a then Plain
      else if allow_single_quoted a \<and> \<not> (simple_key \<and> multiline a) then SingleQuoted
      else DoubleQuoted)"

subsection \<open>Scalar writers\<close>

text \<open>The writers scan the text with two indices, \<^verbatim>\<open>start\<close> and \<^verbatim>\<open>end\<close>; the loop
  \<^verbatim>\<open>while end <= len(text)\<close> is a fold over the values of \<^verbatim>\<open>end\<close>.\<close>

record scan =
  s_start :: nat
  s_spaces :: bool
  s_breaks :: bool
  s_out :: string
  s_em :: emitter

definition emit :: "writer \<Rightarrow> scan \<Rightarrow> scan" where
  "emit w l = (case w (s_em l) of (d, st) \<Rightarrow> l\<lparr>s_out := s_out l @ d, s_em := st\<rparr>)"

definition slice :: "string \<Rightarrow> nat \<Rightarrow> nat \<Rightarrow> string" where
  "slice text a b = take (b - a) (drop a text)"

definition char_at :: "string \<Rightarrow> nat \<Rightarrow> char option" where
  "char_at text e = (if e < length text then Some (text ! e) else None)"

definition next_kind :: "char option \<Rightarrow> scan \<Rightarrow> scan" where
  "next_kind ch l =
     (case ch of None \<Rightarrow> l
      | Some c \<Rightarrow> l\<lparr>s_spaces := (c = CHR '' ''), s_breaks := is_break c\<rparr>)"

fun write_breaks :: "string \<Rightarrow> writer" where
  "write_breaks [] = skip_w"
| "write_breaks (br # brs) = then_w write_line_break (write_breaks brs)"

definition write_break_run :: "string \<Rightarrow> writer" where
  "write_break_run run =
     then_w (if take 1 run = [CHR 0x0A] then write_line_break else skip_w) (write_breaks run)"

definition plain_step :: "string \<Rightarrow> bool \<Rightarrow> nat \<Rightarrow> scan \<Rightarrow> nat \<Rightarrow> scan" where
  "plain_step text split indent l e =
     (let ch = char_at text e;
          l1 =
            (if s_spaces l then
               (if ch \<noteq> Some CHR '' '' then
                  (if s_start l + 1 = e \<and> column (s_em l) > best_width \<and> split
                   then emit (then_w (write_indent indent) (set_flags False False)) l
                   else emit (write_data (slice text (s_start l) e)) l)\<lparr>s_start := e\<rparr>
                else l)
             else if s_breaks l then
               (if ch = None \<or> \<not> is_break (the ch) then
                  (emit (then_w (write_break_run (slice text (s_start l) e))
                          (then_w (write_indent indent) (set_flags False False))) l)
                    \<lparr>s_start := e\<rparr>
                else l)
             else
               (if ch = None \<or> ch = Some CHR '' '' \<or> is_break (the ch) then
                  (emit (write_data (slice text (s_start l) e)) l)\<lparr>s_start := e\<rparr>
                else l))
      in next_kind ch l1)"

definition write_plain :: "string \<Rightarrow> bool \<Rightarrow> nat \<Rightarrow> writer" where
  "write_plain text split indent st =
     (if text = [] then ([], st)
      else
        case (if \<not> whitespace st then write_data '' '' st else ([], st)) of (d0, st0) \<Rightarrow>
          let l = foldl (plain_step text split indent)
                    \<lparr>s_start = 0, s_spaces = False, s_breaks = False, s_out = d0,
                     s_em = st0\<lparr>whitespace := False, indention := False\<rparr>\<rparr>
                    [0..<Suc (length text)]
          in (s_out l, s_em l))"

definition single_step :: "string \<Rightarrow> bool \<Rightarrow> nat \<Rightarrow> scan \<Rightarrow> nat \<Rightarrow> scan" where
  "single_step text split indent l e =
     (let ch = char_at text e;
          l1 =
            (if s_spaces l then
               (if ch \<noteq> Some CHR '' '' then
                  (if s_start l + 1 = e \<and> column (s_em l) > best_width \<and> split
                      \<and> s_start l \<noteq> 0 \<and> e \<noteq> length text
                   then emit (write_indent indent) l
                   else emit (write_data (slice text (s_start l) e)) l)\<lparr>s_start := e\<rparr>
                else l)
             else if s_breaks l then
               (if ch = None \<or> \<not> is_break (the ch) then
                  (emit (then_w (write_break_run (slice text (s_start l) e))
                          (write_indent indent)) l)\<lparr>s_start := e\<rparr>
                else l)
             else
               (if ch = None \<or> ch = Some CHR '' '' \<or> is_break (the ch) \<or> ch = Some (CHR 0x27)
                then (if s_start l < e
                      then (emit (write_data (slice text (s_start l) e)) l)\<lparr>s_start := e\<rparr>
                      else l)
                else l));
          l2 = (if ch = Some (CHR 0x27)
                then (emit (write_data [CHR 0x27, CHR 0x27]) l1)\<lparr>s_start := e + 1\<rparr>
                else l1)
      in next_kind ch l2)"

definition write_single_quoted :: "string \<Rightarrow> bool \<Rightarrow> nat \<Rightarrow> writer" where
  "write_single_quoted text split indent st =
     (case write_indicator [CHR 0x27] True False False st of (d0, st0) \<Rightarrow>
        let l = foldl (single_step text split indent)
                  \<lparr>s_start = 0, s_spaces = False, s_breaks = False, s_out = d0, s_em = st0\<rparr>
                  [0..<Suc (length text)]
        in then_w (\<lambda>_. (s_out l, s_em l)) (write_indicator [CHR 0x27] False False False) st)"

definition escape_replacements :: "(char \<times> string) list" where
  "escape_replacements =
     [(CHR 0x00, ''0''), (CHR 0x07, ''a''), (CHR 0x08, ''b''), (CHR 0x09, ''t''),
      (CHR 0x0A, ''n''), (CHR 0x0B, ''v''), (CHR 0x0C, ''f''), (CHR 0x0D, ''r''),
      (CHR 0x1B, ''e''), (CHR 0x22, [CHR 0x22]), (CHR 0x5C, [CHR 0x5C])]"

definition hex_digit :: "nat \<Rightarrow> char" where
  "hex_digit n = ''0123456789ABCDEF'' ! (n mod 16)"

definition escape_char :: "char \<Rightarrow> string" where
  "escape_char ch =
     (case map_of escape_replacements ch of
        Some r \<Rightarrow> CHR 0x5C # r
      | None \<Rightarrow> [CHR 0x5C, CHR ''x'', hex_digit (of_char ch div 16), hex_digit (of_char ch)])"

definition needs_escape :: "char \<Rightarrow> bool" where
  "needs_escape ch =
     (let n = (of_char ch :: nat) in
      ch \<in> set [CHR 0x22, CHR 0x5C] \<or> \<not> ((32 \<le> n \<and> n \<le> 126) \<or> 128 \<le> n))"

definition double_step :: "string \<Rightarrow> bool \<Rightarrow> nat \<Rightarrow> scan \<Rightarrow> nat \<Rightarrow> scan" where
  "double_step text split indent l e =
     (let ch = char_at text e;
          l1 =
            (if ch = None \<or> needs_escape (the ch) then
               let la = (if s_start l < e
                         then (emit (write_data (slice text (s_start l) e)) l)\<lparr>s_start := e\<rparr>
                         else l)
               in (case ch of None \<Rightarrow> la
                   | Some c \<Rightarrow> (emit (write_data (escape_char c)) la)\<lparr>s_start := e + 1\<rparr>)
             else l)
      in if 0 < e \<and> e + 1 < length text \<and> (ch = Some CHR '' '' \<or> s_start l1 \<ge> e)
            \<and> int (column (s_em l1)) + (int e - int (s_start l1)) > int best_width \<and> split
         then
           let l2 = emit (write_data (slice text (s_start l1) e @ [CHR 0x5C])) l1;
               l3 = (if s_start l2 < e then l2\<lparr>s_start := e\<rparr> else l2);
               l4 = emit (then_w (write_indent indent) (set_flags False False)) l3
           in if text ! s_start l4 = CHR '' '' then emit (write_data [CHR 0x5C]) l4 else l4
         else l1)"

definition write_double_quoted :: "string \<Rightarrow> bool \<Rightarrow> nat \<Rightarrow> writer" where
  "write_double_quoted text split indent st =
     (case write_indicator [CHR 0x22] True False False st of (d0, st0) \<Rightarrow>
        let l = foldl (double_step text split indent)
                  \<lparr>s_start = 0, s_spaces = False, s_breaks = False, s_out = d0, s_em = st0\<rparr>
                  [0..<Suc (length text)]
        in then_w (\<lambda>_. (s_out l, s_em l)) (write_indicator [CHR 0x22] False False False) st)"

definition process_scalar :: "bool \<Rightarrow> bool \<Rightarrow> nat \<Rightarrow> string \<Rightarrow> writer" where
  "process_scalar simple_key implicit0 indent v =
     (case choose_scalar_style simple_key implicit0 v of
        Plain \<Rightarrow> write_plain v (\<not> simple_key) indent
      | SingleQuoted \<Rightarrow> write_single_quoted v (\<not> simple_key) indent
      | DoubleQuoted \<Rightarrow> write_double_quoted v (\<not> simple_key) indent)"

subsection \<open>Nodes\<close>

definition increase_indent :: "nat option \<Rightarrow> bool \<Rightarrow> bool \<Rightarrow> nat" where
  "increase_indent indent flow indentless =
     (case indent of
        None \<Rightarrow> (if flow then best_indent else 0)
      | Some i \<Rightarrow> (if indentless then i else i + best_indent))"

definition expect_scalar :: "bool \<Rightarrow> bool \<Rightarrow> nat option \<Rightarrow> string \<Rightarrow> writer" where
  "expect_scalar simple_key implicit0 indent v =
     process_scalar simple_key implicit0 (increase_indent indent True False) v"

definition check_simple_key :: "string \<Rightarrow> bool" where
  "check_simple_key k =
     (length k < 128 \<and> \<not> empty (analyze_scalar k) \<and> \<not> multiline (analyze_scalar k))"

function show_nat :: "nat \<Rightarrow> string" where
  "show_nat n =
     (if n < 10 then [''0123456789'' ! n] else show_nat (n div 10) @ [''0123456789'' ! (n mod 10)])"
  by pat_completeness auto
termination
  by (relation "measure id") auto

definition show_int :: "int \<Rightarrow> string" where
  "show_int i = (if i < 0 then CHR ''-'' # show_nat (nat (- i)) else show_nat (nat i))"

text \<open>
  \<open>expect_node mapping indent node\<close> writes a node; \<open>mapping\<close> is the emitter's
  \<^verbatim>\<open>mapping_context\<close> and \<open>indent\<close> its current \<^verbatim>\<open>indent\<close>.  With
  \<^verbatim>\<open>default_flow_style=False\<close> every collection is written in block style, except the
  empty ones.  Keys are written in the order of the mapping (\<^verbatim>\<open>sort_keys=False\<close>).
\<close>

fun expect_node :: "bool \<Rightarrow> nat option \<Rightarrow> yaml \<Rightarrow> writer"
  and expect_block_sequence_item :: "nat \<Rightarrow> yaml list \<Rightarrow> writer"
  and expect_block_mapping_key :: "nat \<Rightarrow> (string \<times> yaml) list \<Rightarrow> writer"
where
  "expect_node mapping indent YNull st =
     expect_scalar False (resolve ''null'' = TagNull) indent ''null'' st"
| "expect_node mapping indent (YBool b) st =
     (let v = (if b then ''true'' else ''false'')
      in expect_scalar False (resolve v = TagBool) indent v st)"
| "expect_node mapping indent (YInt i) st =
     expect_scalar False (resolve (show_int i) = TagInt) indent (show_int i) st"
| "expect_node mapping indent (YStr v) st =
     expect_scalar False (resolve v = TagStr) indent v st"
| "expect_node mapping indent (YSeq xs) st =
     (if xs = [] then
        then_w (write_indicator ''['' True True False) (write_indicator '']'' False False False) st
      else
        expect_block_sequence_item
          (increase_indent indent False (mapping \<and> \<not> indention st)) xs st)"
| "expect_node mapping indent (YMap es) st =
     (if es = [] then
        then_w (write_indicator ''{'' True True False) (write_indicator ''}'' False False False) st
      else expect_block_mapping_key (increase_indent indent False False) es st)"
| "expect_block_sequence_item indent [] st = ([], st)"
| "expect_block_sequence_item indent (x # xs) st =
     then_w (write_indent indent)
       (then_w (write_indicator ''-'' True False True)
         (then_w (expect_node False (Some indent) x)
           (expect_block_sequence_item indent xs))) st"
| "expect_block_mapping_key indent [] st = ([], st)"
| "expect_block_mapping_key indent ((k, v) # es) st =
     then_w (write_indent indent)
       (then_w
         (if check_simple_key k then
            then_w (expect_scalar True (resolve k = TagStr) (Some indent) k)
              (then_w (write_indicator '':'' False False False)
                (expect_node True (Some indent) v))
          else
            then_w (write_indicator ''?'' True False True)
              (then_w (expect_scalar False (resolve k = TagStr) (Some indent) k)
                (then_w (write_indent indent)
                  (then_w (write_indicator '':'' True False True)
                    (expect_node True (Some indent) v)))))
         (expect_block_mapping_key indent es)) st"

text \<open>
  \<^verbatim>\<open>yaml.safe_dump(data, sort_keys=False, indent=2, default_flow_style=False,
  allow_unicode=True)\<close>: one implicit document, closed by a line break; a plain scalar at
  the root leaves the document open and is followed by the end marker.
\<close>

definition is_plain_root :: "yaml \<Rightarrow> bool" where
  "is_plain_root node =
     (case node of
        YSeq _ \<Rightarrow> False
      | YMap _ \<Rightarrow> False
      | YStr v \<Rightarrow> v \<noteq> [] \<and> choose_scalar_style False (resolve v = TagStr) v = Plain
      | _ \<Rightarrow> True)"

definition safe_dump :: "yaml \<Rightarrow> string" where
  "safe_dump data =
     fst (then_w (expect_node False None data)
           (then_w (write_indent 0)
             (if is_plain_root data
              then then_w (write_indicator ''...'' True False False) (write_indent 0)
              else skip_w))
           \<lparr>column = 0, whitespace = True, indention = True\<rparr>)"

section \<open>AutomationDefinition\<close>

text \<open>
  A step object is a \<^typ>\<open>yaml\<close> value.  A Python \<^verbatim>\<open>dict\<close> keeps its keys in the order
  of insertion, so it is a list of pairs; \<open>dict_set\<close> is the assignment \<^verbatim>\<open>d[k] = v\<close>.
  \<^verbatim>\<open>
  def to_yaml(self) -> str:
      automation = {
          "alias": self.alias,
          "mode": self.mode,
          "trigger": self.trigger or [],
          "action": self.action or [],
      }
      if self.description:
          automation["description"] = self.description
      if self.condition:
          automation["condition"] = self.condition
      return yaml.safe_dump(automation, sort_keys=False, indent=2,
                            default_flow_style=False, allow_unicode=True)
  \<close>
\<close>

text \<open>The field \<^verbatim>\<open>alias\<close> is \<open>alias_name\<close> here: \<open>alias\<close> is a keyword of Isabelle.\<close>

record AutomationDefinition =
  alias_name :: string
  description :: "string option"
  mode :: string
  trigger :: "yaml list"
  condition :: "yaml list option"
  action :: "yaml list"

definition automation_dict :: "AutomationDefinition \<Rightarrow> (string \<times> yaml) list" where
  "automation_dict d =
     (let automation =
            [(''alias'', YStr (alias_name d)),
             (''mode'', YStr (mode d)),
             (''trigger'', YSeq (if trigger d \<noteq> [] then trigger d else [])),
             (''action'', YSeq (if action d \<noteq> [] then action d else []))];
          automation =
            (case description d of
               Some s \<Rightarrow> (if s \<noteq> [] then dict_set automation ''description'' (YStr s)
                          else automation)
             | None \<Rightarrow> automation);
          automation =
            (case condition d of
               Some c \<Rightarrow> (if c \<noteq> [] then dict_set automation ''condition'' (YSeq c)
                          else automation)
             | None \<Rightarrow> automation)
      in automation)"

definition to_yaml :: "AutomationDefinition \<Rightarrow> string" where
  "to_yaml d = safe_dump (YMap (automation_dict d))"

section \<open>Template builders\<close>

text \<open>The parameter \<^verbatim>\<open>description\<close> of the builders is \<open>descr\<close>, the name
  \<open>description\<close> being the field of the record above.\<close>


definition en_dash :: string where
  "en_dash = [CHR 0xE2, CHR 0x80, CHR 0x93]"

definition logbook_step :: "string \<Rightarrow> string \<Rightarrow> yaml" where
  "logbook_step name message =
     YMap [(''service'', YStr ''logbook.log''),
           (''data'', YMap [(''name'', YStr name), (''message'', YStr message)])]"

definition example_automation :: "string \<Rightarrow> string option \<Rightarrow> yaml" where
  "example_automation name descr =
     YMap [(''alias'', YStr (name @ '' '' @ en_dash @ '' example'')),
           (''description'',
              YStr (py_or descr
                ''Replace the trigger and actions with your real automation logic.'')),
           (''trigger'',
              YSeq [YMap [(''platform'', YStr ''state''),
                          (''entity_id'', YStr ''binary_sensor.example''),
                          (''to'', YStr ''on'')]]),
           (''condition'', YSeq []),
           (''action'', YSeq [logbook_step name ''Replace this with useful actions.'']),
           (''mode'', YStr ''single'')]"

definition build_automation_package_yaml :: "string \<Rightarrow> string option \<Rightarrow> bool \<Rightarrow> string" where
  "build_automation_package_yaml name descr include_example =
     (let header = ''# Automations for the '' @ name @ '' package'' @ [CHR 0x0A];
          body = [(''automation'',
                    YSeq (if include_example then [example_automation name descr] else []))]
      in header @ safe_dump (YMap body))"

definition build_scripts_package_yaml :: "string \<Rightarrow> bool \<Rightarrow> string" where
  "build_scripts_package_yaml name include_example =
     (let header = ''# Scripts for the '' @ name @ '' package'' @ [CHR 0x0A];
          script =
            (if include_example then
               dict_set [] (slugify (name @ '' helper''))
                 (YMap [(''alias'', YStr (name @ '' helper'')),
                        (''sequence'',
                           YSeq [logbook_step name
                                   ''Replace this script with your real sequence.''])])
             else []);
          body = [(''script'', YMap script)]
      in header @ safe_dump (YMap body))"

definition build_scenes_package_yaml :: "string \<Rightarrow> bool \<Rightarrow> string" where
  "build_scenes_package_yaml name include_example =
     (let header = ''# Scenes for the '' @ name @ '' package'' @ [CHR 0x0A];
          scene =
            (if include_example then
               [YMap [(''name'', YStr (name @ '' scene'')),
                      (''icon'', YStr ''mdi:palette''),
                      (''entities'',
                         YMap [(''light.example'',
                                  YMap [(''state'', YStr ''on''), (''brightness'', YInt 200)])])]]
             else []);
          body = [(''scene'', YSeq scene)]
      in header @ safe_dump (YMap body))"

definition build_package_readme ::
  "string \<Rightarrow> string option \<Rightarrow> bool \<Rightarrow> bool \<Rightarrow> bool \<Rightarrow> string" where
  "build_package_readme name descr include_scripts include_scenes include_blueprint =
     (let lines = [''# '' @ name @ '' package'', ''''];
          lines = lines @ [py_or descr ''Describe the goal of this automation package.''];
          lines = lines @ ['''', ''## Contents'', '''', ''- `automations.yaml`''];
          lines = (if include_scripts then lines @ [''- `scripts.yaml`''] else lines);
          lines = (if include_scenes then lines @ [''- `scenes.yaml`''] else lines);
          lines = (if include_blueprint
                   then lines @ [''- `blueprints/` automation or script blueprint''] else lines);
          lines = lines @
            ['''', ''## Getting started'', '''',
             ''1. Adjust the example entries to match your devices.'',
             ''2. Load the package by enabling `packages:` in `configuration.yaml`.'',
             ''3. Restart Home Assistant and verify the automations appear as expected.'']
      in py_join [CHR 0x0A] lines @ [CHR 0x0A])"

text \<open>The mapping that \<^verbatim>\<open>build_blueprint_yaml\<close> hands to the serializer.\<close>

definition blueprint_dict :: "string \<Rightarrow> string option \<Rightarrow> string \<Rightarrow> (string \<times> yaml) list" where
  "blueprint_dict name descr domain =
     (let inner =
            [(''name'', YStr (name @ '' helper blueprint'')),
             (''description'',
                YStr (py_or descr
                  ''Adapt this blueprint to create reusable automations or scripts.'')),
             (''domain'', YStr domain),
             (''input'',
                YMap [(''target_entity'',
                         YMap [(''name'', YStr ''Target entity''),
                               (''description'', YStr ''Entity that should receive the action.''),
                               (''selector'', YMap [(''entity'', YMap [])])])]),
             (''source_url'', YStr ''https://github.com/404GamerNotFound/ha_automation_helper'')];
          inner =
            (if domain = ''automation'' then
               dict_set
                 (dict_set inner ''trigger''
                    (YSeq [YMap [(''platform'', YStr ''state''),
                                 (''entity_id'', YStr ''!input target_entity''),
                                 (''to'', YStr ''on'')]]))
                 ''action''
                 (YSeq [logbook_step name
                          (''Blueprint triggered '' @ en_dash @ '' replace with useful actions.'')])
             else
               dict_set inner ''sequence''
                 (YSeq [logbook_step name
                          (''Blueprint executed '' @ en_dash @ '' replace with useful steps.'')]))
      in [(''blueprint'', YMap inner)])"

definition build_blueprint_yaml :: "string \<Rightarrow> string option \<Rightarrow> string \<Rightarrow> string" where
  "build_blueprint_yaml name descr domain =
     (let yaml_body = safe_dump (YMap (blueprint_dict name descr domain));
          yaml_body = py_replace ([CHR 0x27] @ ''!input target_entity'' @ [CHR 0x27])
                        ''!input target_entity'' yaml_body;
          yaml_body = py_replace ([CHR 0x22] @ ''!input target_entity'' @ [CHR 0x22])
                        ''!input target_entity'' yaml_body
      in yaml_body)"

section \<open>The file system\<close>

text \<open>
  A path is the list of its components below the root.  The file system is a tree of
  directories and regular files; a directory holds its entries as a list of pairs that
  is read as a finite map.  Permissions, links, devices and the limits on names (their
  length, the NUL character) are outside the model, and so is the component \<^verbatim>\<open>..\<close>:
  a directory has no entry of that name here, so a path that holds it does not mean
  what it means to the operating system.
\<close>

type_synonym path = "string list"

datatype node = File string | Dir "(string \<times> node) list"

datatype error =
    HomeAssistantError string
  | Invalid string
  | FileExistsError string
  | FileNotFoundError
  | NotADirectoryError
  | IsADirectoryError

text \<open>\<^verbatim>\<open>str(path)\<close>\<close>

definition path_str :: "path \<Rightarrow> string" where
  "path_str p = (if p = [] then ''/'' else concat (map (\<lambda>c. CHR ''/'' # c) p))"

text \<open>
  \<^verbatim>\<open>directory / name\<close> of \<^verbatim>\<open>pathlib\<close>: the name is cut at its slashes, the empty
  components and the single dots are dropped, and a name that begins with a slash
  replaces the directory.  \<open>truediv_str\<close> is \<^verbatim>\<open>str(directory / name)\<close>: a name that
  begins with exactly two slashes keeps them both.
\<close>

fun py_split :: "char \<Rightarrow> string \<Rightarrow> string list" where
  "py_split sep [] = [[]]"
| "py_split sep (c # cs) =
     (if c = sep then [] # py_split sep cs
      else (case py_split sep cs of [] \<Rightarrow> [[c]] | r # rs \<Rightarrow> (c # r) # rs))"

definition posix_parts :: "string \<Rightarrow> path" where
  "posix_parts name = filter (\<lambda>c. c \<noteq> [] \<and> c \<noteq> ''.'') (py_split (CHR ''/'') name)"

definition truediv :: "path \<Rightarrow> string \<Rightarrow> path" where
  "truediv dir name =
     (if take 1 name = ''/'' then posix_parts name else dir @ posix_parts name)"

definition truediv_str :: "path \<Rightarrow> string \<Rightarrow> string" where
  "truediv_str dir name =
     (if take 2 name = ''//'' \<and> take 3 name \<noteq> ''///''
      then CHR ''/'' # path_str (posix_parts name)
      else path_str (truediv dir name))"

fun lookup :: "node \<Rightarrow> path \<Rightarrow> node option" where
  "lookup n [] = Some n"
| "lookup (File c) (x # xs) = None"
| "lookup (Dir es) (x # xs) =
     (case map_of es x of None \<Rightarrow> None | Some n \<Rightarrow> lookup n xs)"

text \<open>\<^verbatim>\<open>Path.exists()\<close>\<close>

definition path_exists :: "node \<Rightarrow> path \<Rightarrow> bool" where
  "path_exists fs p = (lookup fs p \<noteq> None)"

text \<open>\<^verbatim>\<open>any(path.iterdir())\<close>: the directory has an entry; on what is not a directory
  \<^verbatim>\<open>iterdir\<close> raises.\<close>

definition any_iterdir :: "node \<Rightarrow> path \<Rightarrow> error + bool" where
  "any_iterdir fs p =
     (case lookup fs p of
        None \<Rightarrow> Inl FileNotFoundError
      | Some (File c) \<Rightarrow> Inl NotADirectoryError
      | Some (Dir es) \<Rightarrow> Inr (es \<noteq> []))"

text \<open>The names in a directory.\<close>

definition listdir :: "node \<Rightarrow> path \<Rightarrow> string set" where
  "listdir fs p = (case lookup fs p of Some (Dir es) \<Rightarrow> fst ` set es | _ \<Rightarrow> {})"

text \<open>No regular file lies on the way to a path, and the path is not a directory: what
  creating the missing directories above it and writing the file at it asks of the file
  system.\<close>

definition way_clear :: "node \<Rightarrow> path \<Rightarrow> bool" where
  "way_clear fs p =
     list_all (\<lambda>n. case lookup fs (take n p) of Some (File c) \<Rightarrow> False | _ \<Rightarrow> True)
       [0..<length p]"

definition is_directory :: "node \<Rightarrow> path \<Rightarrow> bool" where
  "is_directory fs p = (case lookup fs p of Some (Dir es) \<Rightarrow> True | _ \<Rightarrow> False)"

text \<open>Every directory from the root down to a path exists.\<close>

definition dirs_above :: "node \<Rightarrow> path \<Rightarrow> bool" where
  "dirs_above fs d = list_all (\<lambda>n. is_directory fs (take n d)) [0..<Suc (length d)]"

text \<open>
  \<^verbatim>\<open>Path.mkdir(parents=True, exist_ok=True)\<close>: an existing directory is left as it is,
  missing directories are created from the top; it raises \<^verbatim>\<open>FileExistsError\<close> when the
  path is a regular file and \<^verbatim>\<open>NotADirectoryError\<close> when a regular file is on the way.
  The first argument of the \<^verbatim>\<open>FileExistsError\<close> that the operating system raises is the
  error number 17.
\<close>

fun mkdir_parents :: "node \<Rightarrow> path \<Rightarrow> error + node" where
  "mkdir_parents (Dir es) [] = Inr (Dir es)"
| "mkdir_parents (File c) [] = Inl (FileExistsError ''17'')"
| "mkdir_parents (File c) (x # xs) = Inl NotADirectoryError"
| "mkdir_parents (Dir es) (x # xs) =
     (case mkdir_parents (case map_of es x of None \<Rightarrow> Dir [] | Some n \<Rightarrow> n) xs of
        Inl e \<Rightarrow> Inl e
      | Inr n' \<Rightarrow> Inr (Dir (AList.update x n' es)))"

text \<open>\<^verbatim>\<open>Path.write_text(content, encoding="utf-8")\<close>: the file is created or replaced;
  the directory that holds it must exist.\<close>

fun write_text :: "node \<Rightarrow> path \<Rightarrow> string \<Rightarrow> error + node" where
  "write_text n [] content = Inl IsADirectoryError"
| "write_text (File c) (x # xs) content = Inl NotADirectoryError"
| "write_text (Dir es) [x] content =
     (case map_of es x of
        Some (Dir sub) \<Rightarrow> Inl IsADirectoryError
      | _ \<Rightarrow> Inr (Dir (AList.update x (File content) es)))"
| "write_text (Dir es) (x # xs) content =
     (case map_of es x of
        None \<Rightarrow> Inl FileNotFoundError
      | Some n \<Rightarrow>
          (case write_text n xs content of
             Inl e \<Rightarrow> Inl e
           | Inr n' \<Rightarrow> Inr (Dir (AList.update x n' es))))"

section \<open>The guarded file writer\<close>

text \<open>
  \<^verbatim>\<open>
  async def _async_write_file(hass, path, content, overwrite):
      def _write() -> None:
          if path.exists() and not overwrite:
              raise FileExistsError(path)
          path.parent.mkdir(parents=True, exist_ok=True)
          path.write_text(content, encoding="utf-8")
      try:
          await hass.async_add_executor_job(_write)
      except FileExistsError as err:
          raise HomeAssistantError(
              f"Automation Helper refused to overwrite {err.args[0]}") from err
  \<close>
  An action on the file system returns the error it raised, if any, and the file system
  it leaves behind.
\<close>

type_synonym outcome = "error option \<times> node"

definition write_job :: "node \<Rightarrow> path \<Rightarrow> string \<Rightarrow> bool \<Rightarrow> outcome" where
  "write_job fs p content overwrite =
     (if path_exists fs p \<and> \<not> overwrite then (Some (FileExistsError (path_str p)), fs)
      else
        (case mkdir_parents fs (butlast p) of
           Inl e \<Rightarrow> (Some e, fs)
         | Inr fs1 \<Rightarrow>
             (case write_text fs1 p content of
                Inl e \<Rightarrow> (Some e, fs1)
              | Inr fs2 \<Rightarrow> (None, fs2))))"

definition async_write_file :: "node \<Rightarrow> path \<Rightarrow> string \<Rightarrow> bool \<Rightarrow> outcome" where
  "async_write_file fs p content overwrite =
     (case write_job fs p content overwrite of
        (Some (FileExistsError a), fs') \<Rightarrow>
          (Some (HomeAssistantError (''Automation Helper refused to overwrite '' @ a)), fs')
      | r \<Rightarrow> r)"

section \<open>generate\_automation\<close>

text \<open>
  The data of a call after \<^verbatim>\<open>SERVICE_SCHEMA\<close> has accepted it.
\<close>

record generate_call =
  g_alias :: string
  g_description :: "string option"
  g_mode :: string
  g_filename :: "string option"
  g_overwrite :: bool
  g_trigger :: "yaml list"
  g_condition :: "yaml list option"
  g_action :: "yaml list"

text \<open>
  \<open>config_dir\<close> is the configuration directory of the host, so that
  \<^verbatim>\<open>hass.config.path(name)\<close> is \<open>config_dir @ [name]\<close>.  A file name is one component
  of a path.
  \<^verbatim>\<open>
  async def handle_generate(call: ServiceCall) -> None:
      definition = AutomationDefinition(alias=call.data["alias"], ...)
      filename = call.data.get("filename") or slugify(definition.alias) + ".yaml"
      overwrite = call.data["overwrite"]
      output_dir = Path(hass.config.path("automation_helper"))
      output_dir.mkdir(parents=True, exist_ok=True)
      output_file = output_dir / filename
      if output_file.exists() and not overwrite:
          raise HomeAssistantError(
              f"Automation Helper refused to overwrite existing file: {output_file}")
      yaml_data = definition.to_yaml()
      await _async_write_file(hass, output_file, yaml_data, overwrite)
  \<close>
\<close>

definition definition_of :: "generate_call \<Rightarrow> AutomationDefinition" where
  "definition_of call =
     \<lparr>alias_name = g_alias call, description = g_description call, mode = g_mode call,
      trigger = g_trigger call, condition = g_condition call, action = g_action call\<rparr>"



definition handle_generate :: "path \<Rightarrow> generate_call \<Rightarrow> node \<Rightarrow> outcome" where
  "handle_generate config_dir call fs =
     (let definition = definition_of call;
          filename = py_or (g_filename call) (slugify (alias_name definition) @ ''.yaml'');
          overwrite = g_overwrite call;
          output_dir = config_dir @ [''automation_helper'']
      in case mkdir_parents fs output_dir of
           Inl e \<Rightarrow> (Some e, fs)
         | Inr fs1 \<Rightarrow>
             let output_file = truediv output_dir filename
             in if path_exists fs1 output_file \<and> \<not> overwrite then
                  (Some (HomeAssistantError
                     (''Automation Helper refused to overwrite existing file: ''
                        @ truediv_str output_dir filename)), fs1)
                else async_write_file fs1 output_file (to_yaml definition) overwrite)"

section \<open>generate\_package\<close>

record package_call =
  p_name :: string
  p_description :: "string option"
  p_overwrite :: bool
  p_include_example :: bool
  p_include_scripts :: bool
  p_include_scenes :: bool
  p_include_readme :: bool
  p_blueprint_domain :: string
  p_include_blueprint :: bool

text \<open>The loop \<^verbatim>\<open>for relative_path, builder in files.items()\<close>: the first error ends
  it, and what was written before stays.\<close>

fun write_files :: "node \<Rightarrow> path \<Rightarrow> (string \<times> string) list \<Rightarrow> bool \<Rightarrow> outcome" where
  "write_files fs dir [] overwrite = (None, fs)"
| "write_files fs dir ((relative_path, content) # files) overwrite =
     (case async_write_file fs (dir @ [relative_path]) content overwrite of
        (Some e, fs') \<Rightarrow> (Some e, fs')
      | (None, fs') \<Rightarrow> write_files fs' dir files overwrite)"

text \<open>The mapping \<^verbatim>\<open>files\<close> from file names to builders, with each builder applied.\<close>

definition package_files :: "string \<Rightarrow> package_call \<Rightarrow> (string \<times> string) list" where
  "package_files human_title call =
     (let files = [(''automations.yaml'',
                     build_automation_package_yaml human_title (p_description call)
                       (p_include_example call))];
          files = (if p_include_scripts call
                   then dict_set files ''scripts.yaml''
                          (build_scripts_package_yaml human_title (p_include_example call))
                   else files);
          files = (if p_include_scenes call
                   then dict_set files ''scenes.yaml''
                          (build_scenes_package_yaml human_title (p_include_example call))
                   else files);
          files = (if p_include_readme call
                   then dict_set files ''README.md''
                          (build_package_readme human_title (p_description call)
                             (p_include_scripts call) (p_include_scenes call)
                             (p_include_blueprint call))
                   else files)
      in files)"

definition handle_generate_package :: "path \<Rightarrow> package_call \<Rightarrow> node \<Rightarrow> outcome" where
  "handle_generate_package config_dir call fs =
     (let package_name = py_strip (p_name call);
          overwrite = p_overwrite call
      in if package_name = [] then (Some (HomeAssistantError ''Package name cannot be empty''), fs)
         else
           let slug = slugify package_name;
               human_title = humanize package_name;
               packages_root = config_dir @ [''packages''];
               package_dir = packages_root @ [slug];
               blueprint_dir = package_dir @ [''blueprints''] @ [p_blueprint_domain call];
               files = package_files human_title call
           in (case mkdir_parents fs packages_root of
                 Inl e \<Rightarrow> (Some e, fs)
               | Inr fs1 \<Rightarrow>
                   (case (if path_exists fs1 package_dir \<and> \<not> overwrite
                          then any_iterdir fs1 package_dir else Inr False) of
                      Inl e \<Rightarrow> (Some e, fs1)
                    | Inr True \<Rightarrow>
                        (Some (HomeAssistantError
                           (''Automation Helper refused to overwrite non-empty package directory: ''
                              @ path_str package_dir)), fs1)
                    | Inr False \<Rightarrow>
                        (case mkdir_parents fs1 package_dir of
                           Inl e \<Rightarrow> (Some e, fs1)
                         | Inr fs2 \<Rightarrow>
                             (if p_include_blueprint call then
                                (case mkdir_parents fs2 blueprint_dir of
                                   Inl e \<Rightarrow> (Some e, fs2)
                                 | Inr fs3 \<Rightarrow>
                                     (case async_write_file fs3
                                             (blueprint_dir @ [slug @ ''.yaml''])
                                             (build_blueprint_yaml human_title
                                                (p_description call) (p_blueprint_domain call))
                                             overwrite of
                                        (Some e, fs4) \<Rightarrow> (Some e, fs4)
                                      | (None, fs4) \<Rightarrow>
                                          write_files fs4 package_dir files overwrite))
                              else write_files fs2 package_dir files overwrite)))))"

section \<open>The service schemas\<close>

text \<open>
  The host checks the data of a call against the schema of the service before it runs
  the handler.  The data is a mapping from keys to values.  The validators come from
  the host (\<^verbatim>\<open>cv.string\<close>, \<^verbatim>\<open>cv.boolean\<close>, \<^verbatim>\<open>cv.ensure_list\<close>) and from voluptuous
  (\<^verbatim>\<open>vol.Required\<close>, \<^verbatim>\<open>vol.Optional\<close>, \<^verbatim>\<open>vol.In\<close>, \<^verbatim>\<open>vol.All\<close>, a list of validators);
  the validator of one step, \<^verbatim>\<open>cv.SCRIPT_SCHEMA\<close>, is a parameter.
\<close>

definition cv_string :: "yaml \<Rightarrow> error + string" where
  "cv_string v =
     (case v of
        YNull \<Rightarrow> Inl (Invalid ''string value is None'')
      | YStr s \<Rightarrow> Inr s
      | YBool b \<Rightarrow> Inr (if b then ''True'' else ''False'')
      | YInt i \<Rightarrow> Inr (show_int i)
      | _ \<Rightarrow> Inl (Invalid ''value should be a string''))"

definition cv_boolean :: "yaml \<Rightarrow> error + bool" where
  "cv_boolean v =
     (case v of
        YBool b \<Rightarrow> Inr b
      | YStr s \<Rightarrow>
          (let w = py_strip (py_lower s) in
           if w \<in> set [''1'', ''true'', ''yes'', ''on'', ''enable''] then Inr True
           else if w \<in> set [''0'', ''false'', ''no'', ''off'', ''disable''] then Inr False
           else Inl (Invalid ''invalid boolean value''))
      | YInt i \<Rightarrow> Inr (i \<noteq> 0)
      | _ \<Rightarrow> Inl (Invalid ''invalid boolean value''))"

definition cv_ensure_list :: "yaml \<Rightarrow> yaml list" where
  "cv_ensure_list v = (case v of YNull \<Rightarrow> [] | YSeq xs \<Rightarrow> xs | _ \<Rightarrow> [v])"

definition vol_in :: "string list \<Rightarrow> yaml \<Rightarrow> error + string" where
  "vol_in container v =
     (case v of
        YStr s \<Rightarrow> (if s \<in> set container then Inr s else Inl (Invalid ''value is not allowed''))
      | _ \<Rightarrow> Inl (Invalid ''value is not allowed''))"

text \<open>The schema \<^verbatim>\<open>[validator]\<close>: a list each of whose items the validator accepts.\<close>

fun vol_list :: "(yaml \<Rightarrow> error + yaml) \<Rightarrow> yaml list \<Rightarrow> error + yaml list" where
  "vol_list validator [] = Inr []"
| "vol_list validator (x # xs) =
     (case validator x of
        Inl e \<Rightarrow> Inl e
      | Inr y \<Rightarrow> (case vol_list validator xs of Inl e \<Rightarrow> Inl e | Inr ys \<Rightarrow> Inr (y # ys)))"

definition step_list :: "(yaml \<Rightarrow> error + yaml) \<Rightarrow> yaml \<Rightarrow> error + yaml list" where
  "step_list script_schema v = vol_list script_schema (cv_ensure_list v)"

definition bind_err :: "error + 'a \<Rightarrow> ('a \<Rightarrow> error + 'b) \<Rightarrow> error + 'b" where
  "bind_err r f = (case r of Inl e \<Rightarrow> Inl e | Inr x \<Rightarrow> f x)"

definition vol_required ::
  "(string \<times> yaml) list \<Rightarrow> string \<Rightarrow> (yaml \<Rightarrow> error + 'a) \<Rightarrow> error + 'a" where
  "vol_required data key validator =
     (case map_of data key of
        None \<Rightarrow> Inl (Invalid (''required key not provided: '' @ key))
      | Some v \<Rightarrow> validator v)"

definition vol_optional ::
  "(string \<times> yaml) list \<Rightarrow> string \<Rightarrow> (yaml \<Rightarrow> error + 'a) \<Rightarrow> error + 'a option" where
  "vol_optional data key validator =
     (case map_of data key of
        None \<Rightarrow> Inr None
      | Some v \<Rightarrow> bind_err (validator v) (\<lambda>x. Inr (Some x)))"

definition vol_default ::
  "(string \<times> yaml) list \<Rightarrow> string \<Rightarrow> yaml \<Rightarrow> (yaml \<Rightarrow> error + 'a) \<Rightarrow> error + 'a" where
  "vol_default data key dflt validator =
     validator (case map_of data key of None \<Rightarrow> dflt | Some v \<Rightarrow> v)"

definition no_extra_keys :: "(string \<times> yaml) list \<Rightarrow> string list \<Rightarrow> error + unit" where
  "no_extra_keys data keys =
     (if list_all (\<lambda>k. k \<in> set keys) (map fst data) then Inr ()
      else Inl (Invalid ''extra keys not allowed''))"

text \<open>
  \<^verbatim>\<open>
  SERVICE_SCHEMA = vol.Schema({
      vol.Required("alias"): cv.string,
      vol.Optional("description"): cv.string,
      vol.Optional("mode", default="single"): cv.string,
      vol.Optional("filename"): cv.string,
      vol.Optional("overwrite", default=False): cv.boolean,
      vol.Required("trigger"): vol.All(cv.ensure_list, [cv.SCRIPT_SCHEMA]),
      vol.Optional("condition"): vol.All(cv.ensure_list, [cv.SCRIPT_SCHEMA]),
      vol.Required("action"): vol.All(cv.ensure_list, [cv.SCRIPT_SCHEMA]),
  })
  \<close>
\<close>

definition SERVICE_SCHEMA ::
  "(yaml \<Rightarrow> error + yaml) \<Rightarrow> (string \<times> yaml) list \<Rightarrow> error + generate_call" where
  "SERVICE_SCHEMA script_schema data =
     bind_err (no_extra_keys data
       [''alias'', ''description'', ''mode'', ''filename'', ''overwrite'', ''trigger'',
        ''condition'', ''action'']) (\<lambda>_.
     bind_err (vol_required data ''alias'' cv_string) (\<lambda>a.
     bind_err (vol_optional data ''description'' cv_string) (\<lambda>d.
     bind_err (vol_default data ''mode'' (YStr ''single'') cv_string) (\<lambda>m.
     bind_err (vol_optional data ''filename'' cv_string) (\<lambda>f.
     bind_err (vol_default data ''overwrite'' (YBool False) cv_boolean) (\<lambda>ow.
     bind_err (vol_required data ''trigger'' (step_list script_schema)) (\<lambda>t.
     bind_err (vol_optional data ''condition'' (step_list script_schema)) (\<lambda>c.
     bind_err (vol_required data ''action'' (step_list script_schema)) (\<lambda>ac.
       Inr \<lparr>g_alias = a, g_description = d, g_mode = m, g_filename = f, g_overwrite = ow,
            g_trigger = t, g_condition = c, g_action = ac\<rparr>)))))))))"

text \<open>
  \<^verbatim>\<open>
  PACKAGE_SERVICE_SCHEMA = vol.Schema({
      vol.Required("name"): cv.string,
      vol.Optional("description"): cv.string,
      vol.Optional("overwrite", default=False): cv.boolean,
      vol.Optional("include_example", default=True): cv.boolean,
      vol.Optional("include_scripts", default=True): cv.boolean,
      vol.Optional("include_scenes", default=False): cv.boolean,
      vol.Optional("include_readme", default=True): cv.boolean,
      vol.Optional("blueprint_domain", default="automation"): vol.In({"automation", "script"}),
      vol.Optional("include_blueprint", default=False): cv.boolean,
  })
  \<close>
\<close>

definition PACKAGE_SERVICE_SCHEMA :: "(string \<times> yaml) list \<Rightarrow> error + package_call" where
  "PACKAGE_SERVICE_SCHEMA data =
     bind_err (no_extra_keys data
       [''name'', ''description'', ''overwrite'', ''include_example'', ''include_scripts'',
        ''include_scenes'', ''include_readme'', ''blueprint_domain'', ''include_blueprint'']) (\<lambda>_.
     bind_err (vol_required data ''name'' cv_string) (\<lambda>n.
     bind_err (vol_optional data ''description'' cv_string) (\<lambda>d.
     bind_err (vol_default data ''overwrite'' (YBool False) cv_boolean) (\<lambda>ow.
     bind_err (vol_default data ''include_example'' (YBool True) cv_boolean) (\<lambda>ex.
     bind_err (vol_default data ''include_scripts'' (YBool True) cv_boolean) (\<lambda>sc.
     bind_err (vol_default data ''include_scenes'' (YBool False) cv_boolean) (\<lambda>sn.
     bind_err (vol_default data ''include_readme'' (YBool True) cv_boolean) (\<lambda>rd.
     bind_err (vol_default data ''blueprint_domain'' (YStr ''automation'')
                 (vol_in [''automation'', ''script''])) (\<lambda>bd.
     bind_err (vol_default data ''include_blueprint'' (YBool False) cv_boolean) (\<lambda>bp.
       Inr \<lparr>p_name = n, p_description = d, p_overwrite = ow, p_include_example = ex,
            p_include_scripts = sc, p_include_scenes = sn, p_include_readme = rd,
            p_blueprint_domain = bd, p_include_blueprint = bp\<rparr>))))))))))"

text \<open>A call of a service: the schema, then the handler.\<close>

definition generate_automation ::
  "(yaml \<Rightarrow> error + yaml) \<Rightarrow> path \<Rightarrow> (string \<times> yaml) list \<Rightarrow> node \<Rightarrow> outcome" where
  "generate_automation script_schema config_dir data fs =
     (case SERVICE_SCHEMA script_schema data of
        Inl e \<Rightarrow> (Some e, fs)
      | Inr call \<Rightarrow> handle_generate config_dir call fs)"

definition generate_package :: "path \<Rightarrow> (string \<times> yaml) list \<Rightarrow> node \<Rightarrow> outcome" where
  "generate_package config_dir data fs =
     (case PACKAGE_SERVICE_SCHEMA data of
        Inl e \<Rightarrow> (Some e, fs)
      | Inr call \<Rightarrow> handle_generate_package config_dir call fs)"

section \<open>Reading the written text\<close>

text \<open>
  What a single-quoted scalar shows of a text without line breaks, and the scalars that
  the emitter writes on one line: those in the plain or in the single-quoted style that
  hold no line break.
\<close>

definition doubled_quotes :: "string \<Rightarrow> string" where
  "doubled_quotes s = concat (map (\<lambda>c. if c = CHR 0x27 then [CHR 0x27, CHR 0x27] else [c]) s)"

definition str_style :: "bool \<Rightarrow> string \<Rightarrow> style" where
  "str_style simple_key v = choose_scalar_style simple_key (resolve v = TagStr) v"

definition str_simple :: "bool \<Rightarrow> string \<Rightarrow> bool" where
  "str_simple simple_key v =
     (list_all (\<lambda>c. \<not> is_break c) v
      \<and> (str_style simple_key v = Plain \<and> v \<noteq> [] \<or> str_style simple_key v = SingleQuoted))"

definition str_text :: "bool \<Rightarrow> string \<Rightarrow> string" where
  "str_text simple_key v =
     (if str_style simple_key v = Plain then v
      else [CHR 0x27] @ doubled_quotes v @ [CHR 0x27])"

text \<open>
  The lines of a text, and the keys of the block mappings in it: a line that, after its
  indentation and the markers of sequence items, holds a key followed by a colon, gives
  the column of the key and the key.
\<close>

definition text_of_lines :: "string list \<Rightarrow> string" where
  "text_of_lines ls = concat (map (\<lambda>l. l @ [CHR 0x0A]) ls)"

fun split_lines :: "string \<Rightarrow> string \<Rightarrow> string list" where
  "split_lines acc [] = (if acc = [] then [] else [rev acc])"
| "split_lines acc (c # cs) =
     (if c = CHR 0x0A then rev acc # split_lines [] cs else split_lines (c # acc) cs)"

definition text_lines :: "string \<Rightarrow> string list" where
  "text_lines s = split_lines [] s"

fun strip_markers :: "nat \<Rightarrow> string \<Rightarrow> nat \<times> string" where
  "strip_markers n [] = (n, [])"
| "strip_markers n [c] = (if c = CHR '' '' then (Suc n, []) else (n, [c]))"
| "strip_markers n (c # d # cs) =
     (if c = CHR '' '' then strip_markers (Suc n) (d # cs)
      else if c = CHR ''-'' \<and> d = CHR '' '' then strip_markers (n + 2) cs
      else (n, c # d # cs))"

definition key_of_line :: "string \<Rightarrow> (nat \<times> string) option" where
  "key_of_line l =
     (case strip_markers 0 l of (n, rest) \<Rightarrow>
        let k = takeWhile (\<lambda>c. c \<noteq> CHR '':'') rest;
            after = drop (Suc (length k)) rest
        in if k \<noteq> [] \<and> length k < length rest \<and> (after = [] \<or> hd after = CHR '' '')
           then Some (n, k) else None)"

definition yaml_keys :: "string \<Rightarrow> (nat \<times> string) list" where
  "yaml_keys s = List.map_filter key_of_line (text_lines s)"

section \<open>Example calls\<close>

definition script_blueprint_text :: string where
  "script_blueprint_text = text_of_lines
     [''blueprint:'',
      ''  name: Morning Routine helper blueprint'',
      ''  description: Adapt this blueprint to create reusable automations or scripts.'',
      ''  domain: script'',
      ''  input:'',
      ''    target_entity:'',
      ''      name: Target entity'',
      ''      description: Entity that should receive the action.'',
      ''      selector:'',
      ''        entity: {}'',
      ''  source_url: https://github.com/404GamerNotFound/ha_automation_helper'',
      ''  sequence:'',
      ''  - service: logbook.log'',
      ''    data:'',
      ''      name: Morning Routine'',
      ''      message: Blueprint executed '' @ en_dash @ '' replace with useful steps.'']"



text \<open>A call of generate\_package for the name \<^verbatim>\<open>Morning Routine\<close> with every flag at
  the default of the schema.\<close>

definition morning_call :: package_call where
  "morning_call =
     \<lparr>p_name = ''Morning Routine'', p_description = None, p_overwrite = False,
      p_include_example = True, p_include_scripts = True, p_include_scenes = False,
      p_include_readme = True, p_blueprint_domain = ''automation'',
      p_include_blueprint = False\<rparr>"

text \<open>The directory of that package below the configuration directory.\<close>

definition morning_dir :: "path \<Rightarrow> path" where
  "morning_dir config_dir = config_dir @ [''packages'', ''morning_routine'']"

section \<open>Facts about slugify\<close>

lemma set_re_sub_runs: "set (re_sub_runs p r s) \<subseteq> set r \<union> {c \<in> set s. \<not> p c}"
proof (induction p r s rule: re_sub_runs.induct)
  case (1 p r)
  then show ?case by simp
next
  case (2 p r c cs)
  have "set (dropWhile p cs) \<subseteq> set cs" by (simp add: set_dropWhileD subsetI)
  with 2 show ?case by (auto split: if_splits)
qed

lemma re_sub_runs_id: "\<forall>c\<in>set s. \<not> p c \<Longrightarrow> re_sub_runs p r s = s"
  by (induction s) auto

lemma alphabet_classes:
  "list_all (\<lambda>c. py_lower_char c = c \<and> slug_keep c \<and> \<not> slug_sep c
       \<and> c \<noteq> CHR 0xE2 \<and> c \<noteq> CHR 0xC4
       \<and> list_all (\<lambda>w. hd w \<noteq> c \<and> last w \<noteq> c) whitespace_chars) slug_alphabet"
  by code_simp

lemma alphabet_props:
  assumes "c \<in> set slug_alphabet"
  shows "py_lower_char c = c" "slug_keep c" "\<not> slug_sep c" "c \<noteq> CHR 0xE2" "c \<noteq> CHR 0xC4"
    and "\<forall>w\<in>set whitespace_chars. hd w \<noteq> c \<and> last w \<noteq> c"
  using assms alphabet_classes by (auto simp: list_all_iff)

lemma slugify_alphabet: "set (slugify x) \<subseteq> set slug_alphabet"
proof -
  let ?v2 = "filter slug_keep (py_lower (py_strip x))"
  have "set (re_sub_runs slug_sep ''_'' ?v2) \<subseteq> set ''_'' \<union> {c \<in> set ?v2. \<not> slug_sep c}"
    by (rule set_re_sub_runs)
  also have "\<dots> \<subseteq> set slug_alphabet"
    by (auto simp: slug_alphabet_def slug_keep_def slug_sep_def ascii_space_def whitespace_chars_def)
  finally have *: "set (re_sub_runs slug_sep ''_'' ?v2) \<subseteq> set slug_alphabet" .
  have "set ''automation'' \<subseteq> set slug_alphabet" by (simp add: slug_alphabet_def)
  with * show ?thesis by (simp add: slugify_def Let_def)
qed

lemma slugify_nonempty: "slugify x \<noteq> []"
  by (simp add: slugify_def Let_def)

lemma strip_front_id:
  assumes "s \<noteq> []" "\<forall>w\<in>set ws. hd w \<noteq> hd s"
  shows "strip_front ws s = s"
proof -
  have "\<not> (w \<noteq> [] \<and> prefix w s)" if "w \<in> set ws" for w
  proof
    assume "w \<noteq> [] \<and> prefix w s"
    then have "hd w = hd s" using assms(1) by (cases w; cases s) auto
    with assms(2) that show False by blast
  qed
  then have "find (\<lambda>w. w \<noteq> [] \<and> prefix w s) ws = None"
    by (simp add: find_None_iff)
  then show ?thesis by (simp add: strip_front.simps)
qed

lemma py_strip_id:
  assumes "s \<noteq> []" "\<forall>w\<in>set whitespace_chars. hd w \<noteq> hd s \<and> last w \<noteq> last s"
  shows "py_strip s = s"
proof -
  from assms have 1: "py_lstrip s = s"
    unfolding py_lstrip_def by (intro strip_front_id) auto
  have "\<forall>w\<in>set (map rev whitespace_chars). hd w \<noteq> hd (rev s)"
  proof
    fix w assume "w \<in> set (map rev whitespace_chars)"
    then obtain v where v: "v \<in> set whitespace_chars" "w = rev v" by auto
    then have "v \<noteq> []" by (auto simp: whitespace_chars_def)
    with v assms show "hd w \<noteq> hd (rev s)" by (simp add: hd_rev)
  qed
  with assms(1) have "strip_front (map rev whitespace_chars) (rev s) = rev s"
    by (intro strip_front_id) auto
  then have 2: "py_rstrip s = s" by (simp add: py_rstrip_def)
  show ?thesis by (simp add: py_strip_def 1 2)
qed

lemma py_lower_id: "set s \<subseteq> set slug_alphabet \<Longrightarrow> py_lower s = s"
  by (induction s rule: py_lower.induct) (auto dest: alphabet_props)

lemma slugify_fixed:
  assumes "s \<noteq> []" "set s \<subseteq> set slug_alphabet"
  shows "slugify s = s"
proof -
  from assms have "hd s \<in> set slug_alphabet" "last s \<in> set slug_alphabet" by auto
  then have "py_strip s = s" using assms(1) by (intro py_strip_id) (auto dest: alphabet_props)
  moreover have "py_lower s = s" using assms(2) by (rule py_lower_id)
  moreover have "filter slug_keep s = s"
    using assms(2) by (auto simp: filter_id_conv dest: alphabet_props)
  moreover have "re_sub_runs slug_sep ''_'' s = s"
    using assms(2) by (intro re_sub_runs_id) (auto dest: alphabet_props)
  ultimately show ?thesis using assms(1) by (simp add: slugify_def)
qed

text \<open>
  Claim C3.  slugify is idempotent: applying it to one of its own results gives that
  result back, for every input string.
\<close>

theorem slugify_idempotent: "slugify (slugify x) = slugify x"
  by (rule slugify_fixed) (rule slugify_nonempty, rule slugify_alphabet)

lemma kept_separators:
  "slug_keep c \<Longrightarrow> slug_sep c \<longleftrightarrow> c = CHR '' '' \<or> c = CHR ''-''"
  by (auto simp: slug_keep_def slug_sep_def ascii_space_def whitespace_chars_def)

lemma underscore_runs_run:
  assumes "c = CHR '' '' \<or> c = CHR ''-''"
  shows "underscore_runs (c # cs)
     = CHR ''_'' # underscore_runs (dropWhile (\<lambda>c. c = CHR '' '' \<or> c = CHR ''-'') cs)"
  using assms
proof (induction cs arbitrary: c)
  case Nil
  then show ?case by simp
next
  case (Cons d ds)
  then show ?case by (cases "d = CHR '' '' \<or> d = CHR ''-''") simp_all
qed

lemma underscore_runs_other:
  "\<not> (c = CHR '' '' \<or> c = CHR ''-'') \<Longrightarrow> underscore_runs (c # cs) = c # underscore_runs cs"
  by (cases cs) simp_all

lemma re_sub_runs_kept:
  "\<forall>c\<in>set s. slug_keep c \<Longrightarrow> re_sub_runs slug_sep ''_'' s = underscore_runs s"
proof (induction "length s" arbitrary: s rule: less_induct)
  case less
  show ?case
  proof (cases s)
    case Nil
    then show ?thesis by simp
  next
    case (Cons c cs)
    with less.prems have keep: "slug_keep c" "\<forall>d\<in>set cs. slug_keep d" by auto
    have same: "dropWhile slug_sep cs = dropWhile (\<lambda>c. c = CHR '' '' \<or> c = CHR ''-'') cs"
      using keep(2) by (intro dropWhile_cong) (auto simp: kept_separators)
    show ?thesis
    proof (cases "slug_sep c")
      case True
      with keep(1) have c: "c = CHR '' '' \<or> c = CHR ''-''" by (simp add: kept_separators)
      have "length (dropWhile slug_sep cs) < length s"
        using Cons by (simp add: less_Suc_eq_le length_dropWhile_le)
      moreover have "\<forall>d\<in>set (dropWhile slug_sep cs). slug_keep d"
        using keep(2) by (auto dest: set_dropWhileD)
      ultimately have "re_sub_runs slug_sep ''_'' (dropWhile slug_sep cs)
          = underscore_runs (dropWhile slug_sep cs)"
        by (rule less.hyps)
      with True Cons show ?thesis
        by (simp add: underscore_runs_run[OF c] same)
    next
      case False
      with keep(1) have c: "\<not> (c = CHR '' '' \<or> c = CHR ''-'')" by (simp add: kept_separators)
      have "re_sub_runs slug_sep ''_'' cs = underscore_runs cs"
        using keep(2) Cons by (intro less.hyps) auto
      with False Cons show ?thesis by (simp add: underscore_runs_other[OF c])
    qed
  qed
qed

text \<open>
  Claim C2, as amended.  For every input, slugify returns what the steps above give
  (trimming, lower case, deletion of every character outside \<^verbatim>\<open>[a-z0-9_\- ]\<close>, one
  underscore for every run of spaces and hyphens, \<^verbatim>\<open>automation\<close> when nothing is left),
  and the result is a non-empty string over \<^verbatim>\<open>[a-z0-9_]\<close>: lower case, free of
  whitespace and of hyphens.
\<close>

theorem slugify_shape:
  "slugify x = slugify_steps x \<and> set (slugify x) \<subseteq> set slug_alphabet \<and> slugify x \<noteq> []"
proof -
  let ?kept = "\<lambda>c. c \<in> set ''abcdefghijklmnopqrstuvwxyz0123456789_- ''"
  have "slug_keep = ?kept" by (rule ext) (simp add: slug_keep_def)
  then have kept: "filter ?kept (py_lower (py_strip x)) = filter slug_keep (py_lower (py_strip x))"
    by simp
  have "re_sub_runs slug_sep ''_'' (filter slug_keep (py_lower (py_strip x)))
      = underscore_runs (filter slug_keep (py_lower (py_strip x)))"
    by (rule re_sub_runs_kept) simp
  moreover have "underscore_runs s = [] \<longleftrightarrow> s = []" for s
    by (induction s rule: underscore_runs.induct) auto
  ultimately have "slugify x = slugify_steps x"
    unfolding slugify_def slugify_steps_def Let_def kept by simp
  with slugify_alphabet[of x] slugify_nonempty[of x] show ?thesis by blast
qed

text \<open>
  The claim as written fails: a tab is whitespace, yet the run it forms between two
  letters is deleted by the first substitution instead of becoming an underscore, and
  a leading space is stripped.
\<close>

theorem slugify_runs_counterexample:
  "[CHR 0x09] \<in> set whitespace_chars \<and> slugify [CHR ''a'', CHR 0x09, CHR ''b''] = ''ab''
   \<and> slugify '' a'' = ''a''"
  by code_simp

section \<open>Facts about the file system\<close>

lemma lookup_append:
  "lookup fs (p @ q) = (case lookup fs p of None \<Rightarrow> None | Some n \<Rightarrow> lookup n q)"
  by (induction fs p rule: lookup.induct) (auto split: option.splits)

lemma listdir_lookup: "listdir fs d = {x. lookup fs (d @ [x]) \<noteq> None}"
proof -
  have "fst ` set es = {x. map_of es x \<noteq> None}" for es :: "(string \<times> node) list"
    by (auto simp: map_of_eq_None_iff)
  then show ?thesis
    by (auto simp: listdir_def lookup_append split: option.splits node.splits)
qed

lemma lookup_empty_dir: "lookup (Dir []) q = (if q = [] then Some (Dir []) else None)"
  by (cases q) auto

lemma mkdir_parents_other:
  "mkdir_parents fs d = Inr fs' \<Longrightarrow> \<not> prefix q d \<Longrightarrow> lookup fs' q = lookup fs q"
proof (induction fs d arbitrary: fs' q rule: mkdir_parents.induct)
  case (4 es x xs)
  let ?child = "case map_of es x of None \<Rightarrow> Dir [] | Some n \<Rightarrow> n"
  from 4(2) obtain n' where n': "mkdir_parents ?child xs = Inr n'"
    and fs': "fs' = Dir (AList.update x n' es)"
    by (auto split: sum.splits)
  from 4(3) obtain y ys where q: "q = y # ys" by (cases q) auto
  show ?case
  proof (cases "y = x")
    case True
    with 4(3) q have "\<not> prefix ys xs" by simp
    with 4(1)[OF n'] have "lookup n' ys = lookup ?child ys" by blast
    moreover from \<open>\<not> prefix ys xs\<close> have "ys \<noteq> []" by auto
    ultimately show ?thesis using True q fs'
      by (auto simp: update_conv' lookup_empty_dir split: option.splits)
  next
    case False
    then show ?thesis using q fs' by (simp add: update_conv')
  qed
qed auto

lemma mkdir_parents_prefix:
  "mkdir_parents fs d = Inr fs' \<Longrightarrow> prefix q d \<Longrightarrow> \<exists>es. lookup fs' q = Some (Dir es)"
proof (induction fs d arbitrary: fs' q rule: mkdir_parents.induct)
  case (4 es x xs)
  let ?child = "case map_of es x of None \<Rightarrow> Dir [] | Some n \<Rightarrow> n"
  from 4(2) obtain n' where n': "mkdir_parents ?child xs = Inr n'"
    and fs': "fs' = Dir (AList.update x n' es)"
    by (auto split: sum.splits)
  show ?case
  proof (cases q)
    case Nil
    then show ?thesis using fs' by simp
  next
    case (Cons y ys)
    with 4(3) have "y = x" "prefix ys xs" by auto
    with 4(1)[OF n'] Cons fs' show ?thesis by (simp add: update_conv')
  qed
qed auto


lemma write_text_target: "write_text fs p c = Inr fs' \<Longrightarrow> lookup fs' p = Some (File c)"
  by (induction fs p c arbitrary: fs' rule: write_text.induct)
    (auto simp: update_conv' split: option.splits node.splits sum.splits)

lemma lookup_below_file: "\<forall>sub. n \<noteq> Dir sub \<Longrightarrow> lookup n (z # zs) = None"
  by (cases n) auto

lemma write_text_other:
  "write_text fs p c = Inr fs' \<Longrightarrow> \<not> prefix q p \<Longrightarrow> lookup fs' q = lookup fs q"
proof (induction fs p c arbitrary: fs' q rule: write_text.induct)
  case (3 es x content)
  from 3(2) obtain y ys where q: "q = y # ys" by (cases q) auto
  from 3(1) have fs': "fs' = Dir (AList.update x (File content) es)"
    and nd: "\<forall>sub. map_of es x \<noteq> Some (Dir sub)"
    by (auto split: option.splits node.splits)
  show ?case
  proof (cases "y = x")
    case True
    with 3(2) q have "ys \<noteq> []" by auto
    then obtain z zs where "ys = z # zs" by (cases ys) auto
    with True q fs' nd show ?thesis
      by (auto simp: update_conv' lookup_below_file split: option.splits)
  next
    case False
    then show ?thesis using q fs' by (simp add: update_conv')
  qed
next
  case (4 es x v va content)
  from 4(3) obtain y ys where q: "q = y # ys" by (cases q) auto
  from 4(2) obtain n n' where n: "map_of es x = Some n" "write_text n (v # va) content = Inr n'"
    and fs': "fs' = Dir (AList.update x n' es)"
    by (auto split: option.splits sum.splits)
  show ?case
  proof (cases "y = x")
    case True
    with 4(3) q have "\<not> prefix ys (v # va)" by simp
    with 4(1)[OF n] have "lookup n' ys = lookup n ys" by blast
    with True q fs' n show ?thesis by (simp add: update_conv')
  next
    case False
    then show ?thesis using q fs' by (simp add: update_conv')
  qed
qed auto

lemma write_text_succeeds:
  assumes "lookup fs d = Some (Dir es)" "\<forall>sub. map_of es x \<noteq> Some (Dir sub)"
  shows "\<exists>fs'. write_text fs (d @ [x]) c = Inr fs'"
  using assms
proof (induction d arbitrary: fs)
  case Nil
  then show ?case by (auto split: option.splits node.splits)
next
  case (Cons y ys)
  from Cons(2) obtain es0 n where fs: "fs = Dir es0" "map_of es0 y = Some n"
    "lookup n ys = Some (Dir es)"
    by (cases fs) (auto split: option.splits)
  from Cons(1)[OF fs(3) Cons(3)] obtain n' where "write_text n (ys @ [x]) c = Inr n'" by blast
  moreover obtain z zs where "ys @ [x] = z # zs" by (cases "ys @ [x]") auto
  ultimately show ?case using fs by auto
qed

lemma write_text_prefix:
  "write_text fs p c = Inr fs' \<Longrightarrow> strict_prefix q p \<Longrightarrow> \<exists>es. lookup fs' q = Some (Dir es)"
proof (induction fs p c arbitrary: fs' q rule: write_text.induct)
  case (3 es x content)
  then show ?case by (cases q) (auto split: option.splits node.splits)
next
  case (4 es x v va content)
  from 4(2) obtain n n' where n: "map_of es x = Some n" "write_text n (v # va) content = Inr n'"
    and fs': "fs' = Dir (AList.update x n' es)"
    by (auto split: option.splits sum.splits)
  show ?case
  proof (cases q)
    case Nil
    then show ?thesis using fs' by simp
  next
    case (Cons y ys)
    with 4(3) have "y = x" "strict_prefix ys (v # va)" by auto
    with 4(1)[OF n] Cons fs' show ?thesis by (simp add: update_conv')
  qed
qed auto

lemma way_clear_iff:
  "way_clear fs p \<longleftrightarrow> (\<forall>q c. strict_prefix q p \<longrightarrow> lookup fs q \<noteq> Some (File c))"
proof -
  have "strict_prefix q p \<longleftrightarrow> (\<exists>n < length p. q = take n p)" for q
  proof
    assume "strict_prefix q p"
    then obtain zs where zs: "p = q @ zs" "zs \<noteq> []"
      by (auto simp: strict_prefix_def prefix_def)
    then have "length q < length p" "q = take (length q) p" by auto
    then show "\<exists>n < length p. q = take n p" by blast
  next
    assume "\<exists>n < length p. q = take n p"
    then obtain n where n: "n < length p" "q = take n p" by blast
    then have "p = q @ drop n p" "drop n p \<noteq> []" by auto
    then show "strict_prefix q p"
      unfolding strict_prefix_def prefix_def by (metis append_self_conv)
  qed
  note sp = this
  define ok where "ok q = (case lookup fs q of Some (File c) \<Rightarrow> False | _ \<Rightarrow> True)" for q
  have "way_clear fs p \<longleftrightarrow> (\<forall>n < length p. ok (take n p))"
    by (auto simp: way_clear_def list_all_iff ok_def)
  also have "\<dots> \<longleftrightarrow> (\<forall>q. strict_prefix q p \<longrightarrow> ok q)"
  proof
    assume *: "\<forall>n < length p. ok (take n p)"
    show "\<forall>q. strict_prefix q p \<longrightarrow> ok q"
    proof (intro allI impI)
      fix q assume "strict_prefix q p"
      with sp obtain n where "n < length p" "q = take n p" by blast
      with * show "ok q" by simp
    qed
  next
    assume *: "\<forall>q. strict_prefix q p \<longrightarrow> ok q"
    show "\<forall>n < length p. ok (take n p)"
    proof (intro allI impI)
      fix n assume "n < length p"
      with sp have "strict_prefix (take n p) p" by blast
      with * show "ok (take n p)" by simp
    qed
  qed
  also have "\<dots> \<longleftrightarrow> (\<forall>q c. strict_prefix q p \<longrightarrow> lookup fs q \<noteq> Some (File c))"
    unfolding ok_def by (auto split: option.splits node.splits)
  finally show ?thesis .
qed

lemma mkdir_parents_succeeds:
  "\<forall>q c. prefix q d \<longrightarrow> lookup fs q \<noteq> Some (File c) \<Longrightarrow> \<exists>fs'. mkdir_parents fs d = Inr fs'"
proof (induction d arbitrary: fs)
  case Nil
  then show ?case by (cases fs) auto
next
  case (Cons x xs)
  have "lookup fs [] \<noteq> Some (File c)" for c using Cons(2)[rule_format, of "[]" c] by simp
  then obtain es where fs: "fs = Dir es" by (cases fs) auto
  let ?child = "case map_of es x of None \<Rightarrow> Dir [] | Some n \<Rightarrow> n"
  have "lookup ?child q \<noteq> Some (File c)" if "prefix q xs" for q c
  proof (cases "map_of es x")
    case None
    then show ?thesis by (simp add: lookup_empty_dir)
  next
    case (Some n)
    from that have "prefix (x # q) (x # xs)" by simp
    with Cons(2) have "lookup fs (x # q) \<noteq> Some (File c)" by blast
    with Some fs show ?thesis by simp
  qed
  with Cons(1)[of ?child] obtain n' where "mkdir_parents ?child xs = Inr n'" by blast
  with fs show ?case by simp
qed


lemma write_guard_writes:
  assumes "p \<noteq> []" "way_clear fs p" "\<not> is_directory fs p" "\<not> path_exists fs p \<or> overwrite"
  shows "\<exists>fs'. async_write_file fs p content overwrite = (None, fs')
     \<and> lookup fs' p = Some (File content)
     \<and> (\<forall>q. strict_prefix q p \<longrightarrow> (\<exists>es. lookup fs' q = Some (Dir es)))
     \<and> (\<forall>q. \<not> prefix q p \<longrightarrow> lookup fs' q = lookup fs q)"
proof -
  from assms(1) obtain d x where p: "p = d @ [x]" by (metis rev_exhaust)
  have "\<forall>q c. prefix q d \<longrightarrow> lookup fs q \<noteq> Some (File c)"
    using assms(2) unfolding way_clear_iff p by (auto simp: strict_prefix_def prefix_def) 
  then obtain fs1 where fs1: "mkdir_parents fs d = Inr fs1"
    using mkdir_parents_succeeds by blast
  from mkdir_parents_prefix[OF fs1, of d] obtain es1 where es1: "lookup fs1 d = Some (Dir es1)"
    by auto
  have "lookup fs1 p = lookup fs p"
    using mkdir_parents_other[OF fs1, of p] p by (simp add: prefix_def)
  then have "map_of es1 x \<noteq> Some (Dir sub)" for sub
    using assms(3) es1 p
    by (auto simp: is_directory_def lookup_append split: option.splits node.splits)
  with write_text_succeeds[OF es1] obtain fs' where fs': "write_text fs1 p content = Inr fs'"
    unfolding p by blast
  have "write_job fs p content overwrite = (None, fs')"
    using assms(4) fs1 fs' p by (simp add: write_job_def)
  then have "async_write_file fs p content overwrite = (None, fs')"
    by (simp add: async_write_file_def)
  moreover have "lookup fs' q = lookup fs q" if "\<not> prefix q p" for q
  proof -
    from that p have "\<not> prefix q d" by (auto simp: prefix_def)
    with write_text_other[OF fs' that] mkdir_parents_other[OF fs1] show ?thesis by simp
  qed
  ultimately show ?thesis
    using write_text_target[OF fs'] write_text_prefix[OF fs'] by blast
qed









section \<open>Facts about the emitter\<close>

lemma foldl_upt_invariant:
  assumes "P 0 init" and "\<And>e s. e < n \<Longrightarrow> P e s \<Longrightarrow> P (Suc e) (f s e)"
  shows "P n (foldl f init [0..<n])"
  using assms(2)
proof (induction n)
  case 0
  then show ?case using assms(1) by simp
next
  case (Suc n)
  then show ?case by simp
qed

lemma take_slice: "a \<le> b \<Longrightarrow> take a text @ slice text a b = take b text"
  unfolding slice_def by (metis le_add_diff_inverse take_add)

lemma emitter_all_updated [simp]:
  "(st :: emitter)\<lparr>column := a, whitespace := b, indention := c\<rparr>
     = \<lparr>column = a, whitespace = b, indention = c\<rparr>"
  "(st :: emitter)\<lparr>whitespace := b, indention := c, column := a\<rparr>
     = \<lparr>column = a, whitespace = b, indention = c\<rparr>"
  "(st :: emitter)\<lparr>whitespace := b, indention := c\<rparr>
     = \<lparr>column = column st, whitespace = b, indention = c\<rparr>"
  by (cases st; simp)+

lemma write_plain_unfolded:
  assumes "text \<noteq> []" "\<forall>c\<in>set text. \<not> is_break c"
    and "\<not> split \<or> column st + (if whitespace st then 0 else 1) + length text \<le> best_width"
  shows "write_plain text split indent st =
     ((if whitespace st then [] else '' '') @ text,
      \<lparr>column = column st + (if whitespace st then 0 else 1) + length text,
       whitespace = False, indention = False\<rparr>)"
proof -
  define d0 where "d0 = (if whitespace st then [] else '' '')"
  define c0 where "c0 = column st + (if whitespace st then 0 else 1)"
  define init where "init = \<lparr>s_start = 0, s_spaces = False, s_breaks = False, s_out = d0,
     s_em = \<lparr>column = c0, whitespace = False, indention = False\<rparr>\<rparr>"
  define P where "P e (s :: scan) \<longleftrightarrow> s_start s \<le> e \<and> s_start s \<le> length text
      \<and> (e = Suc (length text) \<longrightarrow> s_start s = length text)
      \<and> s_out s = d0 @ take (s_start s) text
      \<and> s_em s = \<lparr>column = c0 + s_start s, whitespace = False, indention = False\<rparr>
      \<and> \<not> s_breaks s" for e s
  have nofold: "\<not> (c0 + k > best_width \<and> split)" if "k \<le> length text" for k
    using assms(3) that by (auto simp: c0_def)
  have step: "P (Suc e) (plain_step text split indent s e)" if "e < Suc (length text)" "P e s" for e s
  proof (cases "e < length text")
    case True
    then have no_brk: "\<not> is_break (text ! e)" using assms(2) by simp
    from that(2) have iv: "s_start s \<le> e" "s_out s = d0 @ take (s_start s) text"
      "s_em s = \<lparr>column = c0 + s_start s, whitespace = False, indention = False\<rparr>" "\<not> s_breaks s"
      "s_start s \<le> length text"
      by (auto simp: P_def)
    have no_fold: "\<not> (column (s_em s) > best_width \<and> split)"
      using nofold[OF iv(5)] iv(3) by simp
    show ?thesis
      using True no_brk iv no_fold take_slice[OF iv(1), of "text"]
      by (auto simp: P_def plain_step_def char_at_def Let_def emit_def write_data_def
          next_kind_def slice_def)
  next
    case False
    with that(1) have e: "e = length text" by simp
    from that(2) have iv: "s_start s \<le> e" "s_out s = d0 @ take (s_start s) text"
      "s_em s = \<lparr>column = c0 + s_start s, whitespace = False, indention = False\<rparr>" "\<not> s_breaks s"
      "s_start s \<le> length text"
      by (auto simp: P_def)
    have no_fold: "\<not> (column (s_em s) > best_width \<and> split)"
      using nofold[OF iv(5)] iv(3) by simp
    show ?thesis
      using e iv no_fold take_slice[OF iv(1), of "text"]
      by (auto simp: P_def plain_step_def char_at_def Let_def emit_def write_data_def
          next_kind_def slice_def)
  qed
  have "P 0 init" by (simp add: P_def init_def)
  then have "P (Suc (length text)) (foldl (plain_step text split indent) init [0..<Suc (length text)])"
    using step by (rule foldl_upt_invariant)
  then show ?thesis
    using assms(1)
    by (auto simp: write_plain_def P_def init_def d0_def c0_def write_data_def Let_def
        simp del: upt_Suc)
qed

lemma doubled_quotes_append: "doubled_quotes (a @ b) = doubled_quotes a @ doubled_quotes b"
  by (simp add: doubled_quotes_def)

lemma doubled_quotes_id: "CHR 0x27 \<notin> set s \<Longrightarrow> doubled_quotes s = s"
  by (induction s) (auto simp: doubled_quotes_def)

lemma doubled_quotes_take_Suc:
  "e < length s \<Longrightarrow> doubled_quotes (take (Suc e) s)
     = doubled_quotes (take e s) @ (if s ! e = CHR 0x27 then [CHR 0x27, CHR 0x27] else [s ! e])"
  by (simp add: take_Suc_conv_app_nth doubled_quotes_append) (simp add: doubled_quotes_def)

lemma doubled_quotes_slice:
  assumes "a \<le> b" "b \<le> length s" "\<forall>i. a \<le> i \<and> i < b \<longrightarrow> s ! i \<noteq> CHR 0x27"
  shows "doubled_quotes (take a s) @ slice s a b = doubled_quotes (take b s)"
proof -
  have "CHR 0x27 \<notin> set (slice s a b)"
  proof
    assume "CHR 0x27 \<in> set (slice s a b)"
    then obtain j where j: "j < length (slice s a b)" "slice s a b ! j = CHR 0x27"
      by (auto simp: in_set_conv_nth)
    then have "j < b - a" "s ! (a + j) = CHR 0x27"
      using assms(1,2) by (auto simp: slice_def)
    with assms(3) show False by (metis le_add1 less_diff_conv add.commute)
  qed
  then have "doubled_quotes (slice s a b) = slice s a b" by (rule doubled_quotes_id)
  moreover have "take b s = take a s @ slice s a b" using take_slice[OF assms(1)] by simp
  ultimately show ?thesis by (simp add: doubled_quotes_append)
qed

lemma write_single_quoted_unfolded:
  assumes "\<forall>c\<in>set text. \<not> is_break c"
    and "\<not> split
         \<or> column st + (if whitespace st then 1 else 2) + length (doubled_quotes text) \<le> best_width"
  shows "write_single_quoted text split indent st =
     ((if whitespace st then [] else '' '') @ [CHR 0x27] @ doubled_quotes text @ [CHR 0x27],
      \<lparr>column = column st + (if whitespace st then 2 else 3) + length (doubled_quotes text),
       whitespace = False, indention = False\<rparr>)"
proof -
  define d0 where "d0 = (if whitespace st then [] else '' '') @ [CHR 0x27]"
  define c0 where "c0 = column st + (if whitespace st then 1 else 2)"
  define init where "init = \<lparr>s_start = 0, s_spaces = False, s_breaks = False, s_out = d0,
     s_em = \<lparr>column = c0, whitespace = False, indention = False\<rparr>\<rparr>"
  define P where "P e (s :: scan) \<longleftrightarrow> s_start s \<le> e \<and> s_start s \<le> length text
      \<and> (e = Suc (length text) \<longrightarrow> s_start s = length text)
      \<and> s_out s = d0 @ doubled_quotes (take (s_start s) text)
      \<and> s_em s = \<lparr>column = c0 + length (doubled_quotes (take (s_start s) text)),
                    whitespace = False, indention = False\<rparr>
      \<and> \<not> s_breaks s
      \<and> (\<forall>i. s_start s \<le> i \<and> i < e \<and> i < length text \<longrightarrow> text ! i \<noteq> CHR 0x27)" for e s
  have len_mono: "length (doubled_quotes (take k text)) \<le> length (doubled_quotes text)" for k
    by (metis append_take_drop_id doubled_quotes_append le_add1 length_append)
  have step: "P (Suc e) (single_step text split indent s e)"
    if "e < Suc (length text)" "P e s" for e s
  proof -
    from that(2) have iv: "s_start s \<le> e" "s_start s \<le> length text"
      "s_out s = d0 @ doubled_quotes (take (s_start s) text)"
      "s_em s = \<lparr>column = c0 + length (doubled_quotes (take (s_start s) text)),
                    whitespace = False, indention = False\<rparr>"
      "\<not> s_breaks s"
      "\<forall>i. s_start s \<le> i \<and> i < e \<and> i < length text \<longrightarrow> text ! i \<noteq> CHR 0x27"
      by (auto simp: P_def)
    have no_fold: "\<not> (column (s_em s) > best_width \<and> split)"
      using assms(2) len_mono[of "s_start s"] iv(4) by (auto simp: c0_def)
    from that(1) have ele: "e \<le> length text" by simp
    have "\<forall>i. s_start s \<le> i \<and> i < e \<longrightarrow> text ! i \<noteq> CHR 0x27"
      using iv(6) ele by auto
    note sl = doubled_quotes_slice[OF iv(1) ele this]
    have sl_len: "length (doubled_quotes (take (s_start s) text)) + length (slice text (s_start s) e)
        = length (doubled_quotes (take e text))"
      using arg_cong[OF sl, of length] by simp
    show ?thesis
    proof (cases "e < length text")
      case False
      with ele have e: "e = length text" by simp
      show ?thesis
        using e iv no_fold sl sl_len
        by (auto simp: P_def single_step_def char_at_def Let_def emit_def write_data_def
            next_kind_def)
    next
      case True
      then have no_brk: "\<not> is_break (text ! e)" using assms(1) by simp
      note ts = doubled_quotes_take_Suc[OF True]
      consider (quote) "text ! e = CHR 0x27" | (space) "text ! e = CHR '' ''"
        | (other) "text ! e \<noteq> CHR 0x27" "text ! e \<noteq> CHR '' ''" by blast
      then show ?thesis
      proof cases
        case quote
        show ?thesis
          using True quote no_brk iv no_fold sl sl_len ts
          by (auto simp: P_def single_step_def char_at_def Let_def emit_def write_data_def
              next_kind_def is_break_def)
      next
        case space
        show ?thesis
          using True space no_brk iv no_fold sl sl_len ts
          by (auto simp: P_def single_step_def char_at_def Let_def emit_def write_data_def
              next_kind_def is_break_def less_Suc_eq)
      next
        case other
        show ?thesis
          using True other no_brk iv no_fold sl sl_len ts
          by (auto simp: P_def single_step_def char_at_def Let_def emit_def write_data_def
              next_kind_def is_break_def less_Suc_eq)
      qed
    qed
  qed
  have "P 0 init" by (simp add: P_def init_def doubled_quotes_def)
  then have "P (Suc (length text)) (foldl (single_step text split indent) init [0..<Suc (length text)])"
    using step by (rule foldl_upt_invariant)
  then show ?thesis
    by (auto simp: write_single_quoted_def P_def init_def d0_def c0_def write_indicator_def
        Let_def then_w_def simp del: upt_Suc)
qed

lemma write_indent_eq:
  "write_indent i st =
     ((if \<not> indention st \<or> column st > i \<or> (column st = i \<and> \<not> whitespace st)
       then CHR 0x0A # replicate i CHR '' '' else replicate (i - column st) CHR '' ''),
      \<lparr>column = i, whitespace = True, indention = True\<rparr>)"
  by (cases st) (auto simp: write_indent_def then_w_def write_line_break_def skip_w_def)

lemma expect_scalar_str_simple:
  assumes "str_simple sk v"
    and "sk \<or> column st + (if whitespace st then 0 else 1) + length (str_text sk v) \<le> best_width"
  shows "expect_scalar sk (resolve v = TagStr) ind v st =
     ((if whitespace st then [] else '' '') @ str_text sk v,
      \<lparr>column = column st + (if whitespace st then 0 else 1) + length (str_text sk v),
       whitespace = False, indention = False\<rparr>)"
proof -
  from assms(1) have nb: "\<forall>c\<in>set v. \<not> is_break c"
    by (simp add: str_simple_def list_all_iff)
  from assms(1) consider (plain) "str_style sk v = Plain" "v \<noteq> []"
    | (single) "str_style sk v = SingleQuoted"
    by (auto simp: str_simple_def)
  then show ?thesis
  proof cases
    case plain
    then show ?thesis
      using assms(2) nb write_plain_unfolded[of v "\<not> sk" st]
      by (auto simp: expect_scalar_def process_scalar_def str_style_def str_text_def)
  next
    case single
    then show ?thesis
      using assms(2) nb write_single_quoted_unfolded[of v "\<not> sk" st]
      by (auto simp: expect_scalar_def process_scalar_def str_style_def str_text_def)
  qed
qed

lemma text_lines_of_lines: "text_lines (text_of_lines ls) = ls" if "\<forall>l\<in>set ls. CHR 0x0A \<notin> set l"
proof -
  have *: "split_lines acc (l @ CHR 0x0A # rest) = (rev acc @ l) # split_lines [] rest"
    if "CHR 0x0A \<notin> set l" for acc l rest
    using that by (induction l arbitrary: acc) auto
  show ?thesis using that
    by (induction ls) (auto simp: text_lines_def text_of_lines_def *)
qed

lemma yaml_keys_lines:
  "\<forall>l\<in>set ls. CHR 0x0A \<notin> set l \<Longrightarrow> yaml_keys (text_of_lines ls) = List.map_filter key_of_line ls"
  by (simp add: yaml_keys_def text_lines_of_lines)

lemma script_blueprint_keys: "yaml_keys script_blueprint_text =
  [(0, ''blueprint''), (2, ''name''), (2, ''description''), (2, ''domain''), (2, ''input''),
   (4, ''target_entity''), (6, ''name''), (6, ''description''), (6, ''selector''), (8, ''entity''),
   (2, ''source_url''), (2, ''sequence''), (4, ''service''), (4, ''data''), (6, ''name''),
   (6, ''message'')]"
  unfolding script_blueprint_text_def
  by (subst yaml_keys_lines) (simp_all add: en_dash_def List.map_filter_simps key_of_line_def)

section \<open>Facts about the package handler\<close>

lemma dirs_above_iff: "dirs_above fs d \<longleftrightarrow> (\<forall>q. prefix q d \<longrightarrow> is_directory fs q)"
proof -
  have "prefix q d \<longleftrightarrow> (\<exists>n < Suc (length d). q = take n d)" for q
  proof
    assume "prefix q d"
    then obtain zs where "d = q @ zs" by (auto simp: prefix_def)
    then have "length q < Suc (length d)" "q = take (length q) d" by auto
    then show "\<exists>n < Suc (length d). q = take n d" by blast
  next
    assume "\<exists>n < Suc (length d). q = take n d"
    then show "prefix q d" by (auto simp: take_is_prefix)
  qed
  note pf = this
  have "dirs_above fs d \<longleftrightarrow> (\<forall>n < Suc (length d). is_directory fs (take n d))"
    by (auto simp: dirs_above_def list_all_iff)
  also have "\<dots> \<longleftrightarrow> (\<forall>q. prefix q d \<longrightarrow> is_directory fs q)"
  proof
    assume *: "\<forall>n < Suc (length d). is_directory fs (take n d)"
    show "\<forall>q. prefix q d \<longrightarrow> is_directory fs q"
    proof (intro allI impI)
      fix q assume "prefix q d"
      with pf obtain n where "n < Suc (length d)" "q = take n d" by blast
      with * show "is_directory fs q" by simp
    qed
  next
    assume *: "\<forall>q. prefix q d \<longrightarrow> is_directory fs q"
    show "\<forall>n < Suc (length d). is_directory fs (take n d)"
      using * by (simp add: take_is_prefix)
  qed
  finally show ?thesis .
qed

lemma dirs_above_way_clear:
  assumes "dirs_above fs d"
  shows "way_clear fs (d @ [x])"
  unfolding way_clear_iff
proof (intro allI impI)
  fix q c assume "strict_prefix q (d @ [x])"
  then have "prefix q d" by (auto simp: strict_prefix_def prefix_snoc)
  with assms have "is_directory fs q" by (simp add: dirs_above_iff)
  then show "lookup fs q \<noteq> Some (File c)" by (auto simp: is_directory_def)
qed

lemma mkdir_parents_dirs_above:
  assumes "mkdir_parents fs d = Inr fs'"
  shows "dirs_above fs' d"
  unfolding dirs_above_iff
proof (intro allI impI)
  fix q assume "prefix q d"
  from mkdir_parents_prefix[OF assms this] obtain es where "lookup fs' q = Some (Dir es)" by blast
  then show "is_directory fs' q" by (simp add: is_directory_def)
qed

lemma mkdir_parents_under_dirs:
  assumes "dirs_above fs d" "\<forall>sub. lookup fs (d @ [x]) \<noteq> Some (File sub)"
  shows "\<exists>fs'. mkdir_parents fs (d @ [x]) = Inr fs'"
proof (rule mkdir_parents_succeeds, intro allI impI)
  fix q c assume "prefix q (d @ [x])"
  then consider "prefix q d" | "q = d @ [x]" by (auto simp: prefix_snoc)
  then show "lookup fs q \<noteq> Some (File c)"
  proof cases
    case 1
    with assms(1) have "is_directory fs q" by (simp add: dirs_above_iff)
    then show ?thesis by (auto simp: is_directory_def)
  next
    case 2
    with assms(2) show ?thesis by simp
  qed
qed

lemma lookup_below_missing:
  "lookup fs p = None \<Longrightarrow> lookup fs (p @ q) = None"
  by (simp add: lookup_append)

lemma write_files_ok:
  assumes "distinct (map fst files)" "dirs_above fs d"
    and "\<forall>n\<in>fst ` set files. lookup fs (d @ [n]) = None"
  shows "\<exists>fs'. write_files fs d files False = (None, fs')
     \<and> dirs_above fs' d
     \<and> (\<forall>(n, c) \<in> set files. lookup fs' (d @ [n]) = Some (File c))
     \<and> (\<forall>q. (\<forall>n\<in>fst ` set files. \<not> prefix q (d @ [n])) \<longrightarrow> lookup fs' q = lookup fs q)"
  using assms
proof (induction files arbitrary: fs)
  case Nil
  then show ?case by simp
next
  case (Cons entry files)
  obtain n c where entry: "entry = (n, c)" by (cases entry)
  let ?p = "d @ [n]"
  have absent: "lookup fs ?p = None" using Cons(4) entry by simp
  have "?p \<noteq> []" "way_clear fs ?p" "\<not> is_directory fs ?p" "\<not> path_exists fs ?p \<or> False"
    using absent dirs_above_way_clear[OF Cons(3)] by (simp_all add: is_directory_def path_exists_def)
  from write_guard_writes[OF this, of c] obtain fs1 where
    w: "async_write_file fs ?p c False = (None, fs1)"
    and t: "lookup fs1 ?p = Some (File c)"
    and above: "\<forall>q. strict_prefix q ?p \<longrightarrow> (\<exists>es. lookup fs1 q = Some (Dir es))"
    and frame: "\<forall>q. \<not> prefix q ?p \<longrightarrow> lookup fs1 q = lookup fs q"
    by blast
  have d1: "dirs_above fs1 d"
    unfolding dirs_above_iff
  proof (intro allI impI)
    fix q assume "prefix q d"
    then have "strict_prefix q ?p" by (auto simp: strict_prefix_def prefix_def)
    with above obtain es where "lookup fs1 q = Some (Dir es)" by blast
    then show "is_directory fs1 q" by (simp add: is_directory_def)
  qed
  have others: "\<forall>m\<in>fst ` set files. lookup fs1 (d @ [m]) = None"
  proof
    fix m assume m: "m \<in> fst ` set files"
    with Cons(2) entry have "m \<noteq> n" by auto
    then have "\<not> prefix (d @ [m]) ?p" by (simp add: prefix_snoc) 
    with frame have "lookup fs1 (d @ [m]) = lookup fs (d @ [m])" by blast
    moreover from Cons(4) m have "lookup fs (d @ [m]) = None" by auto
    ultimately show "lookup fs1 (d @ [m]) = None" by simp
  qed
  from Cons(2) have "distinct (map fst files)" by simp
  from Cons(1)[OF this d1 others] obtain fs' where
    r: "write_files fs1 d files False = (None, fs')" "dirs_above fs' d"
      "\<forall>(m, c') \<in> set files. lookup fs' (d @ [m]) = Some (File c')"
      "\<forall>q. (\<forall>m\<in>fst ` set files. \<not> prefix q (d @ [m])) \<longrightarrow> lookup fs' q = lookup fs1 q"
    by blast
  have kept: "lookup fs' ?p = Some (File c)"
  proof -
    have "\<not> prefix ?p (d @ [m])" if "m \<in> fst ` set files" for m
      using that Cons(2) entry by (auto simp: prefix_snoc)
    with r(4) t show ?thesis by simp
  qed
  have "write_files fs d (entry # files) False = (None, fs')"
    using w r(1) entry by simp
  moreover have "\<forall>(m, c') \<in> set (entry # files). lookup fs' (d @ [m]) = Some (File c')"
    using kept r(3) entry by auto
  moreover have "lookup fs' q = lookup fs q"
    if "\<forall>m\<in>fst ` set (entry # files). \<not> prefix q (d @ [m])" for q
    using that r(4) frame entry by simp
  ultimately show ?case using r(2) by blast
qed

lemma package_files_names:
  "map fst (package_files t call) =
     [''automations.yaml'']
     @ (if p_include_scripts call then [''scripts.yaml''] else [])
     @ (if p_include_scenes call then [''scenes.yaml''] else [])
     @ (if p_include_readme call then [''README.md''] else [])"
  by (simp add: package_files_def dict_set_def)

lemma package_files_distinct: "distinct (map fst (package_files t call))"
  by (simp add: package_files_names)

lemma package_files_not_blueprints: "''blueprints'' \<notin> fst ` set (package_files t call)"
proof -
  have "''blueprints'' \<notin> set (map fst (package_files t call))"
    unfolding package_files_names by simp
  then show ?thesis by simp
qed

lemma prefix_two_more:
  "prefix q (d @ [a, b]) \<longleftrightarrow> prefix q d \<or> q = d @ [a] \<or> q = d @ [a, b]"
proof -
  have "d @ [a, b] = (d @ [a]) @ [b]" by simp
  then show ?thesis by (metis prefix_snoc)
qed

lemma prefix_strict_snoc: "prefix q d \<Longrightarrow> strict_prefix q (d @ [x])"
proof -
  assume a: "prefix q d"
  then have "length q \<le> length d" by (rule prefix_length_le)
  then have "q \<noteq> d @ [x]" by auto
  with a show ?thesis by (simp add: strict_prefix_def prefix_snoc)
qed

lemma package_scaffold:
  fixes call :: package_call and config_dir :: path
  defines "name \<equiv> py_strip (p_name call)"
  defines "pkg \<equiv> config_dir @ [''packages'', slugify (py_strip (p_name call))]"
  defines "bp \<equiv> config_dir @ [''packages'', slugify (py_strip (p_name call)),
                  ''blueprints'', p_blueprint_domain call,
                  slugify (py_strip (p_name call)) @ ''.yaml'']"
  assumes nonempty: "py_strip (p_name call) \<noteq> []" and keep: "\<not> p_overwrite call"
    and clear: "way_clear fs pkg"
    and fresh: "\<not> path_exists fs pkg \<or> lookup fs pkg = Some (Dir [])"
  shows "\<exists>fs'. handle_generate_package config_dir call fs = (None, fs')
     \<and> is_directory fs' pkg
     \<and> (\<forall>(n, c) \<in> set (package_files (humanize name) call). lookup fs' (pkg @ [n]) = Some (File c))
     \<and> (\<forall>x. x \<notin> fst ` set (package_files (humanize name) call)
            \<and> \<not> (p_include_blueprint call \<and> x = ''blueprints'') \<longrightarrow> lookup fs' (pkg @ [x]) = None)
     \<and> (p_include_blueprint call \<longrightarrow>
          lookup fs' bp = Some (File (build_blueprint_yaml (humanize name) (p_description call)
                                       (p_blueprint_domain call))))"
proof -
  let ?root = "config_dir @ [''packages'']"
  let ?slug = "slugify (py_strip (p_name call))"
  let ?files = "package_files (humanize name) call"
  let ?bdir = "pkg @ [''blueprints'', p_blueprint_domain call]"
  let ?content = "build_blueprint_yaml (humanize name) (p_description call) (p_blueprint_domain call)"
  have pkg: "pkg = ?root @ [?slug]" by (simp add: pkg_def)
  have bp: "bp = ?bdir @ [?slug @ ''.yaml'']" by (simp add: bp_def pkg_def)
  have below0: "lookup fs (pkg @ x # q) = None" for x q
    using fresh by (auto simp: path_exists_def lookup_append)
  have nofile: "lookup fs pkg \<noteq> Some (File c)" for c
    using fresh by (auto simp: path_exists_def)
  \<comment> \<open>the packages root\<close>
  have "lookup fs q \<noteq> Some (File c)" if "prefix q ?root" for q c
  proof -
    from that have "strict_prefix q pkg" unfolding pkg by (rule prefix_strict_snoc)
    with clear show ?thesis unfolding way_clear_iff by blast
  qed
  then obtain fs1 where fs1: "mkdir_parents fs ?root = Inr fs1"
    using mkdir_parents_succeeds[of ?root fs] by blast
  have same1: "lookup fs1 (pkg @ q) = lookup fs (pkg @ q)" for q
    by (rule mkdir_parents_other[OF fs1]) (simp add: pkg prefix_def)
  have d1: "dirs_above fs1 ?root" by (rule mkdir_parents_dirs_above[OF fs1])
  have guard0: "any_iterdir fs1 pkg = Inr False" if "path_exists fs1 pkg"
    using that fresh same1[of "[]"] by (auto simp: path_exists_def any_iterdir_def)
  note guard = guard0[unfolded pkg_def]
  \<comment> \<open>the package directory\<close>
  have "\<forall>sub. lookup fs1 (?root @ [?slug]) \<noteq> Some (File sub)"
    using nofile same1[of "[]"] by (simp add: pkg)
  from mkdir_parents_under_dirs[OF d1 this] obtain fs2 where fs2: "mkdir_parents fs1 pkg = Inr fs2"
    unfolding pkg by blast
  have d2: "dirs_above fs2 pkg" by (rule mkdir_parents_dirs_above[OF fs2])
  have below2: "lookup fs2 (pkg @ x # q) = None" for x q
  proof -
    have "lookup fs2 (pkg @ x # q) = lookup fs1 (pkg @ x # q)"
      by (rule mkdir_parents_other[OF fs2]) (simp add: prefix_def)
    then show ?thesis using same1[of "x # q"] below0 by simp
  qed
  show ?thesis
  proof (cases "p_include_blueprint call")
    case False
    have "\<forall>n\<in>fst ` set ?files. lookup fs2 (pkg @ [n]) = None" using below2 by simp
    from write_files_ok[OF package_files_distinct d2 this] obtain fs' where
      r: "write_files fs2 pkg ?files False = (None, fs')" "dirs_above fs' pkg"
        "\<forall>(n, c) \<in> set ?files. lookup fs' (pkg @ [n]) = Some (File c)"
        "\<forall>q. (\<forall>n\<in>fst ` set ?files. \<not> prefix q (pkg @ [n])) \<longrightarrow> lookup fs' q = lookup fs2 q"
      by blast
    have "handle_generate_package config_dir call fs = (None, fs')"
      using nonempty keep fs1 guard fs2 r(1) False
      by (simp add: handle_generate_package_def Let_def pkg_def name_def)
    moreover have "is_directory fs' pkg" using r(2) by (simp add: dirs_above_iff)
    moreover have "lookup fs' (pkg @ [x]) = None" if "x \<notin> fst ` set ?files" for x
    proof -
      have "\<forall>n\<in>fst ` set ?files. \<not> prefix (pkg @ [x]) (pkg @ [n])" using that by auto
      with r(4) below2 show ?thesis by simp
    qed
    ultimately show ?thesis using r(3) False by blast
  next
    case True
    \<comment> \<open>the directory of the blueprint\<close>
    have "lookup fs2 q \<noteq> Some (File c)" if "prefix q ?bdir" for q c
    proof -
      from that consider "prefix q pkg" | "q = pkg @ [''blueprints'']" | "q = ?bdir"
        by (auto simp: prefix_two_more)
      then show ?thesis
      proof cases
        case 1
        with d2 have "is_directory fs2 q" by (simp add: dirs_above_iff)
        then show ?thesis by (auto simp: is_directory_def)
      qed (use below2 in auto)
    qed
    then obtain fs3 where fs3: "mkdir_parents fs2 ?bdir = Inr fs3"
      using mkdir_parents_succeeds[of ?bdir fs2] by blast
    have d3: "dirs_above fs3 ?bdir" by (rule mkdir_parents_dirs_above[OF fs3])
    have same3: "lookup fs3 q = lookup fs2 q" if "\<not> prefix q ?bdir" for q
      by (rule mkdir_parents_other[OF fs3 that])
    \<comment> \<open>the blueprint file\<close>
    have "lookup fs3 bp = None"
      using same3[of bp] below2 by (simp add: bp prefix_def)
    then have "bp \<noteq> []" "way_clear fs3 bp" "\<not> is_directory fs3 bp" "\<not> path_exists fs3 bp \<or> False"
      using dirs_above_way_clear[OF d3] by (simp_all add: bp is_directory_def path_exists_def)
    from write_guard_writes[OF this, of ?content] obtain fs4 where
      w: "async_write_file fs3 bp ?content False = (None, fs4)"
      and t: "lookup fs4 bp = Some (File ?content)"
      and above: "\<forall>q. strict_prefix q bp \<longrightarrow> (\<exists>es. lookup fs4 q = Some (Dir es))"
      and frame: "\<forall>q. \<not> prefix q bp \<longrightarrow> lookup fs4 q = lookup fs3 q"
      by blast
    have d4: "dirs_above fs4 pkg"
      unfolding dirs_above_iff
    proof (intro allI impI)
      fix q assume "prefix q pkg"
      then have "strict_prefix q bp" by (auto simp: strict_prefix_def prefix_def bp)
      with above obtain es where "lookup fs4 q = Some (Dir es)" by blast
      then show "is_directory fs4 q" by (simp add: is_directory_def)
    qed
    have below4: "lookup fs4 (pkg @ [x]) = None" if "x \<noteq> ''blueprints''" for x
    proof -
      from that have "\<not> prefix (pkg @ [x]) bp" "\<not> prefix (pkg @ [x]) ?bdir"
        by (auto simp: bp prefix_def)
      with frame same3 below2 show ?thesis by simp
    qed
    have "\<forall>n\<in>fst ` set ?files. lookup fs4 (pkg @ [n]) = None"
      using below4 package_files_not_blueprints by metis
    from write_files_ok[OF package_files_distinct d4 this] obtain fs' where
      r: "write_files fs4 pkg ?files False = (None, fs')" "dirs_above fs' pkg"
        "\<forall>(n, c) \<in> set ?files. lookup fs' (pkg @ [n]) = Some (File c)"
        "\<forall>q. (\<forall>n\<in>fst ` set ?files. \<not> prefix q (pkg @ [n])) \<longrightarrow> lookup fs' q = lookup fs4 q"
      by blast
    have "handle_generate_package config_dir call fs = (None, fs')"
      using nonempty keep fs1 guard fs2 fs3 w r(1) True
      by (simp add: handle_generate_package_def Let_def pkg_def name_def bp_def)
    moreover have "is_directory fs' pkg" using r(2) by (simp add: dirs_above_iff)
    moreover have "lookup fs' (pkg @ [x]) = None"
      if "x \<notin> fst ` set ?files" "x \<noteq> ''blueprints''" for x
    proof -
      have "\<forall>n\<in>fst ` set ?files. \<not> prefix (pkg @ [x]) (pkg @ [n])" using that by auto
      with r(4) below4[OF that(2)] show ?thesis by simp
    qed
    moreover have "lookup fs' bp = Some (File ?content)"
    proof -
      have "\<forall>n\<in>fst ` set ?files. \<not> prefix bp (pkg @ [n])" by (auto simp: bp prefix_def)
      with r(4) t show ?thesis by simp
    qed
    ultimately show ?thesis using r(3) True by blast
  qed
qed

lemma bind_err_Inr: "bind_err r f = Inr y \<longleftrightarrow> (\<exists>x. r = Inr x \<and> f x = Inr y)"
  by (cases r) (auto simp: bind_err_def)

lemma package_schema_name:
  assumes "PACKAGE_SERVICE_SCHEMA data = Inr call" "map_of data ''name'' = Some (YStr n)"
  shows "p_name call = n"
proof -
  from assms(1) obtain m where "vol_required data ''name'' cv_string = Inr m" "p_name call = m"
    unfolding PACKAGE_SERVICE_SCHEMA_def bind_err_Inr by auto
  with assms(2) show ?thesis by (simp add: vol_required_def cv_string_def)
qed

lemma whitespace_chars_apart:
  "list_all (\<lambda>a. a \<noteq> [] \<and> list_all (\<lambda>b. prefix a b \<longrightarrow> a = b) whitespace_chars)
     whitespace_chars"
  by code_simp

lemma strip_front_blank:
  assumes "set ws \<subseteq> set whitespace_chars"
  shows "strip_front whitespace_chars (concat ws) = []"
  using assms
proof (induction ws)
  case Nil
  have "find (\<lambda>w. w \<noteq> [] \<and> prefix w []) whitespace_chars = None"
    by (simp add: find_None_iff)
  then show ?case by (simp add: strip_front.simps)
next
  case (Cons t ts)
  let ?s = "concat (t # ts)"
  from Cons.prems have t: "t \<in> set whitespace_chars" by simp
  with whitespace_chars_apart have "t \<noteq> []" by (auto simp: list_all_iff)
  with t have "find (\<lambda>w. w \<noteq> [] \<and> prefix w ?s) whitespace_chars \<noteq> None"
    by (auto simp: find_None_iff)
  then obtain w where f: "find (\<lambda>w. w \<noteq> [] \<and> prefix w ?s) whitespace_chars = Some w"
    by blast
  then have w: "w \<in> set whitespace_chars" "w \<noteq> []" "prefix w (t @ concat ts)"
    by (auto simp: find_Some_iff)
  from w(3) have "prefix w t \<or> prefix t w"
    by (metis prefix_append prefixI prefix_same_cases)
  with w(1) t whitespace_chars_apart have "w = t" by (auto simp: list_all_iff)
  with f have "strip_front whitespace_chars ?s = strip_front whitespace_chars (concat ts)"
    by (subst strip_front.simps) simp
  with Cons show ?case by simp
qed

lemma py_strip_blank:
  assumes "set ws \<subseteq> set whitespace_chars"
  shows "py_strip (concat ws) = []"
proof -
  have "find (\<lambda>w. w \<noteq> [] \<and> prefix w []) (map rev whitespace_chars) = None"
    by (simp add: find_None_iff)
  then have "strip_front (map rev whitespace_chars) [] = []"
    by (simp add: strip_front.simps)
  then show ?thesis
    by (simp add: py_strip_def py_lstrip_def py_rstrip_def strip_front_blank[OF assms])
qed

text \<open>
  Claim C6.  A call of generate\_package whose name consists of whitespace only, that is
  of characters that \<^verbatim>\<open>str.isspace\<close> accepts, inside or outside ASCII, fails with the
  error that the package name cannot be empty, and the file system is left exactly as
  it was: the failure comes before any directory is created.
\<close>

theorem blank_name_rejected:
  assumes "set ws \<subseteq> set whitespace_chars" and "n = concat ws"
  shows "handle_generate_package config_dir (call\<lparr>p_name := n\<rparr>) fs
           = (Some (HomeAssistantError ''Package name cannot be empty''), fs)
     \<and> generate_package config_dir [(''name'', YStr n)] fs
           = (Some (HomeAssistantError ''Package name cannot be empty''), fs)
     \<and> (map_of data ''name'' = Some (YStr n) \<longrightarrow>
           fst (generate_package config_dir data fs) \<noteq> None
           \<and> snd (generate_package config_dir data fs) = fs)"
proof -
  have blank: "py_strip n = []"
    unfolding assms(2) by (rule py_strip_blank[OF assms(1)])
  have handler: "handle_generate_package config_dir c fs
      = (Some (HomeAssistantError ''Package name cannot be empty''), fs)" if "p_name c = n" for c
    using that blank by (simp add: handle_generate_package_def)
  have "\<exists>c. PACKAGE_SERVICE_SCHEMA [(''name'', YStr n)] = Inr c \<and> p_name c = n"
    by (simp add: PACKAGE_SERVICE_SCHEMA_def bind_err_def no_extra_keys_def vol_required_def
        vol_optional_def vol_default_def cv_string_def cv_boolean_def vol_in_def)
  then have service: "generate_package config_dir [(''name'', YStr n)] fs
      = (Some (HomeAssistantError ''Package name cannot be empty''), fs)"
    using handler by (auto simp: generate_package_def)
  have "fst (generate_package config_dir data fs) \<noteq> None
      \<and> snd (generate_package config_dir data fs) = fs" if "map_of data ''name'' = Some (YStr n)"
  proof (cases "PACKAGE_SERVICE_SCHEMA data")
    case (Inl e)
    then show ?thesis by (simp add: generate_package_def)
  next
    case (Inr c)
    from Inr that have "p_name c = n" by (rule package_schema_name)
    with Inr handler show ?thesis by (simp add: generate_package_def)
  qed
  with handler[of "call\<lparr>p_name := n\<rparr>"] service show ?thesis by simp
qed

theorem blank_name_rejected_witness:
  "handle_generate_package [''config'']
       (morning_call\<lparr>p_name := [CHR 0x20, CHR 0xC2, CHR 0xA0, CHR 0x09, CHR 0xE3, CHR 0x80, CHR 0x80]\<rparr>)
       (Dir [])
     = (Some (HomeAssistantError ''Package name cannot be empty''), Dir [])
   \<and> generate_package [''config'']
       [(''name'', YStr [CHR 0x20, CHR 0xC2, CHR 0xA0, CHR 0x09, CHR 0xE3, CHR 0x80, CHR 0x80])]
       (Dir [])
     = (Some (HomeAssistantError ''Package name cannot be empty''), Dir [])
   \<and> fst (generate_package [''config'']
        [(''name'', YStr [CHR 0x20, CHR 0xC2, CHR 0xA0, CHR 0x09, CHR 0xE3, CHR 0x80, CHR 0x80]),
         (''overwrite'', YBool True)] (Dir [])) \<noteq> None
   \<and> snd (generate_package [''config'']
        [(''name'', YStr [CHR 0x20, CHR 0xC2, CHR 0xA0, CHR 0x09, CHR 0xE3, CHR 0x80, CHR 0x80]),
         (''overwrite'', YBool True)] (Dir [])) = Dir []"
proof -
  have "set [[CHR 0x20], [CHR 0xC2, CHR 0xA0], [CHR 0x09], [CHR 0xE3, CHR 0x80, CHR 0x80]]
      \<subseteq> set whitespace_chars"
    "[CHR 0x20, CHR 0xC2, CHR 0xA0, CHR 0x09, CHR 0xE3, CHR 0x80, CHR 0x80]
      = concat [[CHR 0x20], [CHR 0xC2, CHR 0xA0], [CHR 0x09], [CHR 0xE3, CHR 0x80, CHR 0x80]]"
    by (simp_all add: whitespace_chars_def)
  from blank_name_rejected[OF this, of "[''config'']" morning_call "Dir []"
      "[(''name'', YStr [CHR 0x20, CHR 0xC2, CHR 0xA0, CHR 0x09, CHR 0xE3, CHR 0x80, CHR 0x80]),
        (''overwrite'', YBool True)]"]
  show ?thesis by simp
qed

lemma script_keys:
  "list_all (\<lambda>k. check_simple_key k \<and> str_simple True k \<and> str_text True k = k)
     [''blueprint'', ''name'', ''description'', ''domain'', ''input'', ''target_entity'',
      ''selector'', ''entity'', ''source_url'', ''sequence'', ''service'', ''data'', ''message'']"
  by code_simp

lemma script_values:
  "list_all (\<lambda>v. str_simple False v \<and> str_text False v = v)
     [''Morning Routine helper blueprint'',
      ''Adapt this blueprint to create reusable automations or scripts.'',
      ''script'', ''Target entity'', ''Entity that should receive the action.'',
      ''https://github.com/404GamerNotFound/ha_automation_helper'',
      ''logbook.log'', ''Morning Routine'',
      ''Blueprint executed '' @ en_dash @ '' replace with useful steps.'']"
  by code_simp

lemma script_dump:
  "safe_dump (YMap (blueprint_dict ''Morning Routine'' None ''script'')) = script_blueprint_text"
  using script_keys script_values
  by (simp add: blueprint_dict_def safe_dump_def then_w_def write_indent_eq
      write_indicator_def expect_scalar_str_simple is_plain_root_def skip_w_def dict_set_def
      py_or_def logbook_step_def en_dash_def increase_indent_def best_indent_def best_width_def
      script_blueprint_text_def text_of_lines_def)

lemma py_replace_absent: "old \<noteq> [] \<Longrightarrow> hd old \<notin> set s \<Longrightarrow> py_replace old new s = s"
proof (induction s)
  case Nil
  then show ?case by simp
next
  case (Cons c cs)
  from Cons.prems have "take (length old) (c # cs) \<noteq> old"
    by (cases old) auto
  with Cons show ?case by simp
qed

lemma script_blueprint_unquoted:
  "CHR 0x27 \<notin> set script_blueprint_text" "CHR 0x22 \<notin> set script_blueprint_text"
  by (simp_all add: script_blueprint_text_def text_of_lines_def en_dash_def)

lemma script_blueprint_built:
  "build_blueprint_yaml ''Morning Routine'' None ''script'' = script_blueprint_text"
  by (simp add: build_blueprint_yaml_def script_dump py_replace_absent script_blueprint_unquoted)

lemma morning_names:
  "py_strip ''Morning Routine'' = ''Morning Routine''"
  "slugify ''Morning Routine'' = ''morning_routine''"
  "humanize ''Morning Routine'' = ''Morning Routine''"
  by code_simp+

lemma morning_schema:
  "PACKAGE_SERVICE_SCHEMA [(''name'', YStr ''Morning Routine'')] = Inr morning_call"
  by (simp add: PACKAGE_SERVICE_SCHEMA_def bind_err_def no_extra_keys_def vol_required_def
      vol_optional_def vol_default_def cv_string_def cv_boolean_def vol_in_def morning_call_def)

lemma morning_blueprint_schema:
  "PACKAGE_SERVICE_SCHEMA
     [(''name'', YStr ''Morning Routine''), (''include_blueprint'', YBool True),
      (''blueprint_domain'', YStr ''script'')]
   = Inr (morning_call\<lparr>p_blueprint_domain := ''script'', p_include_blueprint := True\<rparr>)"
  by (simp add: PACKAGE_SERVICE_SCHEMA_def bind_err_def no_extra_keys_def vol_required_def
      vol_optional_def vol_default_def cv_string_def cv_boolean_def vol_in_def morning_call_def)

text \<open>
  Claim C7.  A call of generate\_package with the name \<^verbatim>\<open>Morning Routine\<close> and no other
  key, so that every flag has the default of the schema, on a file system where the
  package directory is absent or empty and no regular file lies on the way to it,
  succeeds and leaves a directory \<^verbatim>\<open>packages/morning_routine\<close> that holds exactly the three
  regular files \<^verbatim>\<open>automations.yaml\<close>, \<^verbatim>\<open>scripts.yaml\<close> and \<^verbatim>\<open>README.md\<close>: there is neither a
  \<^verbatim>\<open>scenes.yaml\<close> nor a \<^verbatim>\<open>blueprints\<close> entry.
\<close>

theorem morning_routine_package:
  assumes "way_clear fs (morning_dir config_dir)"
    and "\<not> path_exists fs (morning_dir config_dir) \<or> lookup fs (morning_dir config_dir) = Some (Dir [])"
  shows "\<exists>fs'. generate_package config_dir [(''name'', YStr ''Morning Routine'')] fs = (None, fs')
     \<and> is_directory fs' (morning_dir config_dir)
     \<and> listdir fs' (morning_dir config_dir) = {''automations.yaml'', ''scripts.yaml'', ''README.md''}
     \<and> lookup fs' (morning_dir config_dir @ [''automations.yaml''])
         = Some (File (build_automation_package_yaml ''Morning Routine'' None True))
     \<and> lookup fs' (morning_dir config_dir @ [''scripts.yaml''])
         = Some (File (build_scripts_package_yaml ''Morning Routine'' True))
     \<and> lookup fs' (morning_dir config_dir @ [''README.md''])
         = Some (File (build_package_readme ''Morning Routine'' None True False False))
     \<and> lookup fs' (morning_dir config_dir @ [''scenes.yaml'']) = None
     \<and> lookup fs' (morning_dir config_dir @ [''blueprints'']) = None"
proof -
  have files: "package_files ''Morning Routine'' morning_call =
      [(''automations.yaml'', build_automation_package_yaml ''Morning Routine'' None True),
       (''scripts.yaml'', build_scripts_package_yaml ''Morning Routine'' True),
       (''README.md'', build_package_readme ''Morning Routine'' None True False False)]"
    by (simp add: package_files_def dict_set_def morning_call_def)
  have call: "p_name morning_call = ''Morning Routine''" "\<not> p_overwrite morning_call"
    "\<not> p_include_blueprint morning_call"
    by (simp_all add: morning_call_def)
  have "py_strip (p_name morning_call) \<noteq> []" by (simp add: call morning_names)
  from package_scaffold[OF this call(2), of fs config_dir] assms
  obtain fs' where run: "handle_generate_package config_dir morning_call fs = (None, fs')"
    and dir: "is_directory fs' (morning_dir config_dir)"
    and written: "\<forall>(n, c) \<in> set (package_files ''Morning Routine'' morning_call).
        lookup fs' (morning_dir config_dir @ [n]) = Some (File c)"
    and others: "\<forall>x. x \<notin> fst ` set (package_files ''Morning Routine'' morning_call)
        \<longrightarrow> lookup fs' (morning_dir config_dir @ [x]) = None"
    unfolding call morning_names morning_dir_def by (auto simp: call)
  have "listdir fs' (morning_dir config_dir) = {''automations.yaml'', ''scripts.yaml'', ''README.md''}"
  proof (rule set_eqI)
    fix x
    show "x \<in> listdir fs' (morning_dir config_dir)
        \<longleftrightarrow> x \<in> {''automations.yaml'', ''scripts.yaml'', ''README.md''}"
    proof (cases "x \<in> {''automations.yaml'', ''scripts.yaml'', ''README.md''}")
      case True
      with written show ?thesis unfolding listdir_lookup files by auto
    next
      case False
      with others[rule_format, of x] show ?thesis unfolding listdir_lookup files by simp
    qed
  qed
  moreover have "lookup fs' (morning_dir config_dir @ [''scenes.yaml'']) = None"
    "lookup fs' (morning_dir config_dir @ [''blueprints'']) = None"
    using others unfolding files by simp_all
  ultimately show ?thesis
    using run dir written unfolding files
    by (simp add: generate_package_def morning_schema)
qed

theorem morning_routine_package_witness:
  "\<exists>fs'. generate_package [''config''] [(''name'', YStr ''Morning Routine'')] (Dir []) = (None, fs')
     \<and> listdir fs' [''config'', ''packages'', ''morning_routine'']
         = {''automations.yaml'', ''scripts.yaml'', ''README.md''}
     \<and> lookup fs' [''config'', ''packages'', ''morning_routine'', ''scenes.yaml''] = None
     \<and> lookup fs' [''config'', ''packages'', ''morning_routine'', ''blueprints''] = None"
proof -
  have "way_clear (Dir []) (morning_dir [''config''])"
    by (simp add: way_clear_def morning_dir_def upt_rec)
  moreover have "\<not> path_exists (Dir []) (morning_dir [''config''])"
    by (simp add: path_exists_def morning_dir_def)
  ultimately show ?thesis
    using morning_routine_package[of "Dir []" "[''config'']"]
    by (auto simp: morning_dir_def)
qed

text \<open>
  Claim C8.  A call of generate\_package with the name \<^verbatim>\<open>Morning Routine\<close>,
  \<^verbatim>\<open>include_blueprint\<close> true and \<^verbatim>\<open>blueprint_domain\<close> \<^verbatim>\<open>script\<close>, on a file system where the
  package directory is absent or empty and no regular file lies on the way to it,
  succeeds and writes the file \<^verbatim>\<open>blueprints/script/morning_routine.yaml\<close> below the package
  directory.  The text of that file has a key \<^verbatim>\<open>sequence\<close> (in the mapping under
  \<^verbatim>\<open>blueprint\<close>, at column 2) and no key \<^verbatim>\<open>trigger\<close> at any depth.
\<close>

theorem script_blueprint_written:
  assumes "way_clear fs (morning_dir config_dir)"
    and "\<not> path_exists fs (morning_dir config_dir) \<or> lookup fs (morning_dir config_dir) = Some (Dir [])"
  shows "\<exists>fs' content. generate_package config_dir
           [(''name'', YStr ''Morning Routine''), (''include_blueprint'', YBool True),
            (''blueprint_domain'', YStr ''script'')] fs = (None, fs')
     \<and> lookup fs' (morning_dir config_dir @ [''blueprints'', ''script'', ''morning_routine.yaml''])
         = Some (File content)
     \<and> content = build_blueprint_yaml ''Morning Routine'' None ''script''
     \<and> content = script_blueprint_text
     \<and> (2, ''sequence'') \<in> set (yaml_keys content)
     \<and> ''trigger'' \<notin> snd ` set (yaml_keys content)"
proof -
  define call where "call = morning_call\<lparr>p_blueprint_domain := ''script'', p_include_blueprint := True\<rparr>"
  have call: "p_name call = ''Morning Routine''" "\<not> p_overwrite call" "p_include_blueprint call"
    "p_blueprint_domain call = ''script''" "p_description call = None"
    by (simp_all add: call_def morning_call_def)
  have "py_strip (p_name call) \<noteq> []" by (simp add: call morning_names)
  from package_scaffold[OF this call(2), of fs config_dir] assms
  obtain fs' where run: "handle_generate_package config_dir call fs = (None, fs')"
    and bp: "lookup fs' (morning_dir config_dir @ [''blueprints'', ''script'', ''morning_routine.yaml''])
       = Some (File (build_blueprint_yaml ''Morning Routine'' None ''script''))"
    unfolding call morning_names morning_dir_def by (auto simp: call)
  have "(2, ''sequence'') \<in> set (yaml_keys script_blueprint_text)"
    "''trigger'' \<notin> snd ` set (yaml_keys script_blueprint_text)"
    by (simp_all add: script_blueprint_keys)
  with run bp show ?thesis
    by (simp add: generate_package_def morning_blueprint_schema call_def[symmetric]
        script_blueprint_built)
qed

theorem script_blueprint_written_witness:
  "\<exists>fs'. generate_package [''config'']
           [(''name'', YStr ''Morning Routine''), (''include_blueprint'', YBool True),
            (''blueprint_domain'', YStr ''script'')] (Dir []) = (None, fs')
     \<and> lookup fs' [''config'', ''packages'', ''morning_routine'', ''blueprints'', ''script'',
                    ''morning_routine.yaml'']
         = Some (File script_blueprint_text)"
proof -
  have "way_clear (Dir []) (morning_dir [''config''])"
    by (simp add: way_clear_def morning_dir_def upt_rec)
  moreover have "\<not> path_exists (Dir []) (morning_dir [''config''])"
    by (simp add: path_exists_def morning_dir_def)
  ultimately show ?thesis
    using script_blueprint_written[of "Dir []" "[''config'']"]
    by (auto simp: morning_dir_def)
qed

lemma night_scalars:
  "list_all (\<lambda>k. check_simple_key k \<and> str_simple True k \<and> str_text True k = k)
     [''alias'', ''mode'', ''trigger'', ''action'']"
  "list_all (\<lambda>v. str_simple False v \<and> str_text False v = v) [''Night Mode'', ''single'']"
  by code_simp+

lemma night_yaml:
  "to_yaml \<lparr>alias_name = ''Night Mode'', description = None, mode = ''single'', trigger = [],
            condition = None, action = []\<rparr>
   = text_of_lines [''alias: Night Mode'', ''mode: single'', ''trigger: []'', ''action: []'']"
  using night_scalars
  by (simp add: to_yaml_def automation_dict_def safe_dump_def then_w_def write_indent_eq
      write_indicator_def expect_scalar_str_simple is_plain_root_def skip_w_def
      increase_indent_def best_indent_def best_width_def text_of_lines_def)

lemma night_slug: "slugify ''Night Mode'' = ''night_mode''"
  by code_simp

lemma service_schema_steps:
  assumes "SERVICE_SCHEMA script_schema data = Inr call"
  shows "map_of data ''trigger'' \<noteq> None \<and> map_of data ''action'' \<noteq> None"
proof -
  from assms obtain t ac where "vol_required data ''trigger'' (step_list script_schema) = Inr t"
    "vol_required data ''action'' (step_list script_schema) = Inr ac"
    unfolding SERVICE_SCHEMA_def bind_err_Inr by auto
  then show ?thesis by (auto simp: vol_required_def split: option.splits)
qed

text \<open>
  Claim C5.  The schema of generate\_automation asks for the keys \<^verbatim>\<open>trigger\<close> and
  \<^verbatim>\<open>action\<close>: a call that lacks one of them fails, and the file system is as it was.
  It does not ask for a step in them.  The validator \<^verbatim>\<open>[cv.SCRIPT_SCHEMA]\<close> checks every
  item of the list, so it accepts the empty list, and the schema accepts a call whose
  trigger and action are both empty.
\<close>

theorem steps_required:
  "(map_of data ''trigger'' = None \<or> map_of data ''action'' = None \<longrightarrow>
      fst (generate_automation script_schema config_dir data fs) \<noteq> None
      \<and> snd (generate_automation script_schema config_dir data fs) = fs)
   \<and> step_list script_schema (YSeq []) = Inr []
   \<and> SERVICE_SCHEMA script_schema
        [(''alias'', YStr a), (''trigger'', YSeq []), (''action'', YSeq [])]
      = Inr \<lparr>g_alias = a, g_description = None, g_mode = ''single'', g_filename = None,
             g_overwrite = False, g_trigger = [], g_condition = None, g_action = []\<rparr>"
proof -
  have "fst (generate_automation script_schema config_dir data fs) \<noteq> None
      \<and> snd (generate_automation script_schema config_dir data fs) = fs"
    if "map_of data ''trigger'' = None \<or> map_of data ''action'' = None"
  proof (cases "SERVICE_SCHEMA script_schema data")
    case (Inl e)
    then show ?thesis by (simp add: generate_automation_def)
  next
    case (Inr call)
    from service_schema_steps[OF this] that have False by auto
    then show ?thesis ..
  qed
  moreover have "step_list script_schema (YSeq []) = Inr []"
    by (simp add: step_list_def cv_ensure_list_def)
  moreover from this have "SERVICE_SCHEMA script_schema
        [(''alias'', YStr a), (''trigger'', YSeq []), (''action'', YSeq [])]
      = Inr \<lparr>g_alias = a, g_description = None, g_mode = ''single'', g_filename = None,
             g_overwrite = False, g_trigger = [], g_condition = None, g_action = []\<rparr>"
    by (simp add: SERVICE_SCHEMA_def bind_err_def no_extra_keys_def vol_required_def
        vol_optional_def vol_default_def cv_string_def cv_boolean_def)
  ultimately show ?thesis by blast
qed

theorem steps_required_witness:
  "fst (generate_automation Inr [''config'']
          [(''alias'', YStr ''Night Mode''), (''action'', YSeq [])] (Dir [])) \<noteq> None
   \<and> snd (generate_automation Inr [''config'']
          [(''alias'', YStr ''Night Mode''), (''action'', YSeq [])] (Dir [])) = Dir []"
  using steps_required[of "[(''alias'', YStr ''Night Mode''), (''action'', YSeq [])]"
      Inr "[''config'']" "Dir []"]
  by simp

theorem empty_steps_counterexample:
  "generate_automation Inr [''config'']
     [(''alias'', YStr ''Night Mode''), (''trigger'', YSeq []), (''action'', YSeq [])] (Dir [])
   = (None,
      Dir [(''config'', Dir [(''automation_helper'', Dir [(''night_mode.yaml'',
        File (text_of_lines
          [''alias: Night Mode'', ''mode: single'', ''trigger: []'', ''action: []'']))])])])"
proof -
  have "SERVICE_SCHEMA Inr
        [(''alias'', YStr ''Night Mode''), (''trigger'', YSeq []), (''action'', YSeq [])]
      = Inr \<lparr>g_alias = ''Night Mode'', g_description = None, g_mode = ''single'',
             g_filename = None, g_overwrite = False, g_trigger = [], g_condition = None,
             g_action = []\<rparr>"
    by (simp add: SERVICE_SCHEMA_def bind_err_def no_extra_keys_def vol_required_def
        vol_optional_def vol_default_def cv_string_def cv_boolean_def step_list_def
        cv_ensure_list_def)
  then show ?thesis
    by (simp add: generate_automation_def handle_generate_def definition_of_def py_or_def
        night_slug night_yaml path_exists_def async_write_file_def write_job_def
        truediv_def posix_parts_def)
qed

end
